theory Spec2Isabelle
  imports Complex_Main "HOL-Library.FSet"
begin

section \<open>The music extension of Aurora-Bot: data\<close>

text \<open>
  The source is \<^verbatim>\<open>src/extensions/music.py\<close>: the classes \<^verbatim>\<open>VoiceEntry\<close>,
  \<^verbatim>\<open>VoiceState\<close> and \<^verbatim>\<open>Music\<close>. Users, servers and text channels are opaque
  comparable identities; they are natural numbers here. Two members are equal exactly when
  their ids are equal, so \<^verbatim>\<open>voter == state.current.requester\<close> and
  \<^verbatim>\<open>voter.id in state.skip_votes\<close> are both comparisons of ids.
\<close>

type_synonym user_id = nat
type_synonym server_id = nat
type_synonym text_channel = nat

text \<open>A voice channel knows its server (\<^verbatim>\<open>channel.server\<close>, line 80).\<close>

record Channel =
  channel_id :: nat
  channel_server :: server_id

text \<open>
  Modelled from the spec: the stream player that \<^verbatim>\<open>create_ytdl_player\<close> returns belongs to
  the discord library, not to the repository. Section 6 of the specification gives its
  contract (PlaybackHandle): \<^verbatim>\<open>start()\<close>, \<^verbatim>\<open>pause()\<close>, \<^verbatim>\<open>resume()\<close>, \<^verbatim>\<open>stop()\<close>,
  \<^verbatim>\<open>isFinished()\<close>, a settable \<^verbatim>\<open>volume\<close>, and a completion callback. The record holds
  what those calls read and write. \<^verbatim>\<open>volume\<close> is a property of the library's player: an
  assignment stores \<^verbatim>\<open>max(value, 0.0)\<close>, and reading it gives what is stored.
\<close>

record Player =
  player_song :: string
  player_started :: bool
  player_paused :: bool
  player_ended :: bool
  player_volume :: real

definition new_player :: "string \<Rightarrow> Player" where
  "new_player s = \<lparr>player_song = s, player_started = False, player_paused = False,
     player_ended = False, player_volume = 1\<rparr>"

definition player_start :: "Player \<Rightarrow> Player" where
  "player_start p = p\<lparr>player_started := True\<rparr>"

definition player_pause :: "Player \<Rightarrow> Player" where
  "player_pause p = p\<lparr>player_paused := True\<rparr>"

definition player_resume :: "Player \<Rightarrow> Player" where
  "player_resume p = p\<lparr>player_paused := False\<rparr>"

definition player_stop :: "Player \<Rightarrow> Player" where
  "player_stop p = p\<lparr>player_ended := True\<rparr>"

definition is_done :: "Player \<Rightarrow> bool" where
  "is_done p = player_ended p"

definition player_set_volume :: "real \<Rightarrow> Player \<Rightarrow> Player" where
  "player_set_volume v p = p\<lparr>player_volume := max v 0\<rparr>"

text \<open>
  Python's \<^verbatim>\<open>value / 100\<close> on integers is the quotient rounded to the nearest float, and
  raises \<^verbatim>\<open>OverflowError\<close> when that is no finite float: when the quotient is at least
  halfway from the largest float, \<open>2 ^ 1024 - 2 ^ 971\<close>, to \<open>2 ^ 1024\<close>. The model keeps
  the exact quotient as a real number where Python has the rounded one; the bounds 0 and 2
  and every quotient in a closed theorem below are floats, and the rounding is monotone, so
  comparisons with these bounds agree.
\<close>

definition float_overflows :: "real \<Rightarrow> bool" where
  "float_overflows q = (2 ^ 1024 - 2 ^ 970 \<le> \<bar>q\<bar>)"

text \<open>\<^verbatim>\<open>class VoiceEntry\<close> (lines 10 to 14).\<close>

record VoiceEntry =
  requester :: user_id
  channel :: text_channel
  player :: Player

text \<open>
  The task \<^verbatim>\<open>audio_player\<close> runs \<^verbatim>\<open>audio_player_task\<close>. Between two schedulings it is
  suspended at \<^verbatim>\<open>await self.songs.get()\<close> (line 57) or at
  \<^verbatim>\<open>await self.play_next_song.wait()\<close> (line 61), or it has been cancelled. A task that
  was created and has not run yet behaves as one suspended at line 57: the event is clear
  and the queue is empty when \<^verbatim>\<open>__init__\<close> creates it.
\<close>

datatype task = At_get | At_wait | Cancelled

text \<open>
  \<^verbatim>\<open>class VoiceState\<close> (lines 25 to 33). \<^verbatim>\<open>voice\<close> is the voice client, known by the
  channel it is connected to; \<^verbatim>\<open>play_next_song\<close> is the flag of the asyncio event;
  \<^verbatim>\<open>songs\<close> is the asyncio queue, head first; \<^verbatim>\<open>skip_votes\<close> is a Python set, finite.
  The field \<^verbatim>\<open>bot\<close> never changes and is left out.
\<close>

record VoiceState =
  current :: "VoiceEntry option"
  voice :: "Channel option"
  play_next_song :: bool
  songs :: "VoiceEntry list"
  skip_votes :: "user_id fset"
  audio_player :: task

text \<open>\<^verbatim>\<open>class Music\<close>: the dictionary \<^verbatim>\<open>voice_states\<close> from server id to state.\<close>

record Music =
  voice_states :: "server_id \<rightharpoonup> VoiceState"

text \<open>What a command reads of \<^verbatim>\<open>ctx.message\<close>.\<close>

record Ctx =
  message_server :: server_id
  message_author :: user_id
  author_voice_channel :: "Channel option"
  message_channel :: text_channel

text \<open>
  Exceptions of the transport, of the resolver and of the division, and how a coroutine
  ends: it returns a value or raises to its caller. In the discord library
  \<^verbatim>\<open>InvalidArgument\<close> is a subclass of \<^verbatim>\<open>ClientException\<close>, so a clause
  \<^verbatim>\<open>except discord.ClientException\<close> catches both.
\<close>

datatype exn = ClientException | InvalidArgument | OverflowError | Other_exception

definition is_instance :: "exn \<Rightarrow> exn \<Rightarrow> bool" where
  "is_instance e c = (e = c \<or> e = InvalidArgument \<and> c = ClientException)"

datatype 'a outcome = Returned 'a | Raised exn

text \<open>
  The messages, named by their key in \<^verbatim>\<open>lang['MUSIC']\<close> with the arguments of
  \<^verbatim>\<open>format\<close>. Line 228 formats the text of the key \<^verbatim>\<open>SKIP_VOTE_PASSED\<close> with the number
  of votes; line 225 sends the same key unformatted. \<^verbatim>\<open>Processing_error\<close> is the literal
  text of line 152.
\<close>

datatype reply =
    NOW_PLAYING VoiceEntry
  | NOT_PLAYING
  | SKIP_REQUESTER VoiceEntry user_id
  | SKIP_VOTE_PASSED
  | SKIP_VOTE_PASSED_format nat
  | SKIP_ALREADY_VOTED
  | ENQUEUE_SUCCESS VoiceEntry
  | VOLUME_CHANGE real
  | USER_NOT_IN_VOICE_CHANNEL
  | IN_ANOTHER_VOICE_CHANNEL
  | NOT_A_VOICE_CHANNEL
  | READY_TO_PLAY Channel
  | Processing_error exn

text \<open>
  What a command or the scheduling loop does to the outside: a message in the channel of the
  command (\<^verbatim>\<open>bot.say\<close>), a message in a given channel (\<^verbatim>\<open>bot.send_message\<close>), a call
  forwarded to the player of the current entry, the disconnection of the voice client.
  Messages are taken to be delivered: a command is one uninterrupted transition.
\<close>

datatype effect =
    Say reply
  | Send_message text_channel reply
  | Call_start
  | Call_pause
  | Call_resume
  | Call_stop
  | Call_disconnect

section \<open>\<^verbatim>\<open>VoiceState\<close>\<close>

definition new_VoiceState :: VoiceState where
  "new_VoiceState = \<lparr>current = None, voice = None, play_next_song = False, songs = [],
     skip_votes = {||}, audio_player = At_get\<rparr>"

text \<open>Lines 35 to 40.\<close>

definition is_playing :: "VoiceState \<Rightarrow> bool" where
  "is_playing st =
     (case voice st of
        None \<Rightarrow> False
      | Some v \<Rightarrow> (case current st of None \<Rightarrow> False | Some e \<Rightarrow> \<not> is_done (player e)))"

text \<open>
  A call on \<^verbatim>\<open>self.current.player\<close> (the property of lines 42 to 44) mutates the player of
  the current entry. Every caller has checked \<^verbatim>\<open>is_playing()\<close> first, so \<^verbatim>\<open>current\<close> is
  an entry there.
\<close>

definition on_player :: "(Player \<Rightarrow> Player) \<Rightarrow> VoiceState \<Rightarrow> VoiceState" where
  "on_player f st =
     (case current st of
        None \<Rightarrow> st
      | Some e \<Rightarrow> st\<lparr>current := Some (e\<lparr>player := f (player e)\<rparr>)\<rparr>)"

text \<open>\<^verbatim>\<open>VoiceState.skip\<close>, lines 46 to 49.\<close>

definition VoiceState_skip :: "VoiceState \<Rightarrow> VoiceState \<times> effect list" where
  "VoiceState_skip st =
     (let st1 = st\<lparr>skip_votes := {||}\<rparr>
      in if is_playing st1 then (on_player player_stop st1, [Call_stop]) else (st1, []))"

text \<open>
  Lines 51 and 52: the callback \<^verbatim>\<open>after\<close> of the player. It has the event loop set the
  event.
\<close>

definition toggle_next :: "VoiceState \<Rightarrow> VoiceState" where
  "toggle_next st = st\<lparr>play_next_song := True\<rparr>"

text \<open>
  Lines 57 to 61, once \<^verbatim>\<open>songs.get()\<close> has an entry: it becomes \<^verbatim>\<open>current\<close>, is
  announced, its player is started and the task waits for the event.
\<close>

definition take_song :: "VoiceEntry \<Rightarrow> VoiceEntry list \<Rightarrow> VoiceState \<Rightarrow> VoiceState \<times> effect list" where
  "take_song e q st =
     (st\<lparr>current := Some (e\<lparr>player := player_start (player e)\<rparr>), songs := q,
         audio_player := At_wait\<rparr>,
      [Send_message (channel e) (NOW_PLAYING e), Call_start])"

text \<open>
  \<^verbatim>\<open>audio_player_task\<close>, lines 54 to 61: one scheduling of the task, from the point where
  it is suspended to the next one. Suspended at line 57, it goes on when the queue has an
  entry. Suspended at line 61, it goes on when the event is set: it clears the event (line
  56) and takes the head of the queue if there is one (\<^verbatim>\<open>get\<close> on a queue that is not empty
  does not suspend), else it suspends at line 57. Nothing in the loop assigns \<^verbatim>\<open>None\<close> to
  \<^verbatim>\<open>current\<close> or touches \<^verbatim>\<open>skip_votes\<close>.
\<close>

definition audio_player_task :: "VoiceState \<Rightarrow> VoiceState \<times> effect list" where
  "audio_player_task st =
     (case audio_player st of
        Cancelled \<Rightarrow> (st, [])
      | At_get \<Rightarrow> (case songs st of [] \<Rightarrow> (st, []) | e # q \<Rightarrow> take_song e q st)
      | At_wait \<Rightarrow>
          if play_next_song st then
            (let st1 = st\<lparr>play_next_song := False\<rparr>
             in case songs st1 of
                  [] \<Rightarrow> (st1\<lparr>audio_player := At_get\<rparr>, [])
                | e # q \<Rightarrow> take_song e q st1)
          else (st, []))"

text \<open>
  The medium of the current entry reaches its end: the player reports done from then on.
  Its callback \<^verbatim>\<open>toggle_next\<close> follows.
\<close>

definition media_ends :: "VoiceState \<Rightarrow> VoiceState" where
  "media_ends st = (if is_playing st then on_player player_stop st else st)"

section \<open>\<^verbatim>\<open>Music\<close>: the registry and the commands\<close>

text \<open>Lines 70 to 76: the state of a server, created and registered when there is none.\<close>

definition get_voice_state :: "Music \<Rightarrow> server_id \<Rightarrow> VoiceState \<times> Music" where
  "get_voice_state m sid =
     (case voice_states m sid of
        None \<Rightarrow> (new_VoiceState, m\<lparr>voice_states := (voice_states m)(sid \<mapsto> new_VoiceState)\<rparr>)
      | Some st \<Rightarrow> (st, m))"

text \<open>
  \<^verbatim>\<open>state\<close> is a reference to the object in the dictionary: an assignment to one of its
  attributes is seen through the dictionary.
\<close>

definition set_voice_state :: "Music \<Rightarrow> server_id \<Rightarrow> VoiceState \<Rightarrow> Music" where
  "set_voice_state m sid st = m\<lparr>voice_states := (voice_states m)(sid \<mapsto> st)\<rparr>"

definition update_voice_state :: "Music \<Rightarrow> server_id \<Rightarrow> (VoiceState \<Rightarrow> VoiceState) \<Rightarrow> Music" where
  "update_voice_state m sid f =
     m\<lparr>voice_states := (voice_states m)(sid := map_option f (voice_states m sid))\<rparr>"

text \<open>
  Lines 78 to 81. The result of \<^verbatim>\<open>bot.join_voice_channel\<close> is an input: \<open>None\<close> when it
  connects, an exception otherwise. It raises \<^verbatim>\<open>InvalidArgument\<close> when it is given no
  voice channel. The state is looked up only after the connection.
\<close>

definition create_voice_client :: "Music \<Rightarrow> Channel option \<Rightarrow> exn option \<Rightarrow> Music \<times> unit outcome" where
  "create_voice_client m ch jr =
     (case ch of
        None \<Rightarrow> (m, Raised InvalidArgument)
      | Some c \<Rightarrow>
          (case jr of
             Some e \<Rightarrow> (m, Raised e)
           | None \<Rightarrow>
               (let (st, m1) = get_voice_state m (channel_server c)
                in (set_voice_state m1 (channel_server c) (st\<lparr>voice := Some c\<rparr>), Returned ()))))"

text \<open>
  Lines 98 to 111. The clauses of \<^verbatim>\<open>try\<close> are tried in their order: the first one, for
  \<^verbatim>\<open>ClientException\<close>, also catches \<^verbatim>\<open>InvalidArgument\<close>, so the second one is never
  taken. Any other exception leaves the coroutine.
\<close>

definition join :: "Music \<Rightarrow> Ctx \<Rightarrow> Channel option \<Rightarrow> exn option \<Rightarrow> Music \<times> effect list \<times> unit outcome" where
  "join m ctx chan jr =
     (let ch = (case chan of None \<Rightarrow> author_voice_channel ctx | Some c \<Rightarrow> Some c)
      in case create_voice_client m ch jr of
           (m1, Raised e) \<Rightarrow>
             if is_instance e ClientException then (m1, [Say IN_ANOTHER_VOICE_CHANNEL], Returned ())
             else if is_instance e InvalidArgument then (m1, [Say NOT_A_VOICE_CHANNEL], Returned ())
             else (m1, [], Raised e)
         | (m1, Returned u) \<Rightarrow>
             (m1, (case ch of None \<Rightarrow> [] | Some c \<Rightarrow> [Say (READY_TO_PLAY c)]), Returned ()))"

text \<open>
  Lines 113 to 127. \<open>jr\<close> is the result of \<^verbatim>\<open>join_voice_channel\<close> or of \<^verbatim>\<open>move_to\<close>,
  whichever is called; an exception of either leaves the coroutine. The state is looked up
  before the connection.
\<close>

definition summon :: "Music \<Rightarrow> Ctx \<Rightarrow> exn option \<Rightarrow> Music \<times> effect list \<times> bool outcome" where
  "summon m ctx jr =
     (case author_voice_channel ctx of
        None \<Rightarrow> (m, [Say USER_NOT_IN_VOICE_CHANNEL], Returned False)
      | Some summoned_channel \<Rightarrow>
          (let (st, m1) = get_voice_state m (message_server ctx)
           in if voice st = None then
                (case jr of
                   Some e \<Rightarrow> (m1, [], Raised e)
                 | None \<Rightarrow>
                     (set_voice_state m1 (message_server ctx) (st\<lparr>voice := Some summoned_channel\<rparr>),
                      [], Returned True))
              else
                (case jr of
                   Some e \<Rightarrow> (m1, [], Raised e)
                 | None \<Rightarrow>
                     (set_voice_state m1 (message_server ctx) (st\<lparr>voice := Some summoned_channel\<rparr>),
                      [], Returned True))))"

text \<open>
  Lines 149 to 158 of \<^verbatim>\<open>play\<close>. \<open>res\<close> is the result of \<^verbatim>\<open>create_ytdl_player\<close>: \<open>None\<close>
  when it returns a new player for the song, an exception otherwise. \<^verbatim>\<open>state\<close> is the
  object that line 138 found or registered for the server of the message.
\<close>

definition play_song :: "Music \<Rightarrow> Ctx \<Rightarrow> string \<Rightarrow> exn option \<Rightarrow> Music \<times> effect list" where
  "play_song m ctx song res =
     (case res of
        Some e \<Rightarrow> (m, [Send_message (message_channel ctx) (Processing_error e)])
      | None \<Rightarrow>
          (let entry = \<lparr>requester = message_author ctx, channel = message_channel ctx,
                        player = player_set_volume (6 / 10) (new_player song)\<rparr>
           in (update_voice_state m (message_server ctx) (\<lambda>st. st\<lparr>songs := songs st @ [entry]\<rparr>),
               [Say (ENQUEUE_SUCCESS entry)])))"

text \<open>Lines 129 to 158.\<close>

definition play :: "Music \<Rightarrow> Ctx \<Rightarrow> string \<Rightarrow> exn option \<Rightarrow> exn option \<Rightarrow> Music \<times> effect list \<times> unit outcome" where
  "play m ctx song jr res =
     (let (st, m1) = get_voice_state m (message_server ctx)
      in if voice st = None then
           (case summon m1 ctx jr of
              (m2, effs, Raised e) \<Rightarrow> (m2, effs, Raised e)
            | (m2, effs, Returned success) \<Rightarrow>
                if \<not> success then (m2, effs, Returned ())
                else (let (m3, effs3) = play_song m2 ctx song res in (m3, effs @ effs3, Returned ())))
         else (let (m3, effs3) = play_song m1 ctx song res in (m3, effs3, Returned ())))"

text \<open>
  Lines 160 to 168. The division of line 167 raises when the quotient is no float; then
  nothing is assigned and nothing is said. Otherwise the quotient is assigned to the volume
  of the player, and line 168 says what the player then holds.
\<close>

definition volume :: "Music \<Rightarrow> Ctx \<Rightarrow> int \<Rightarrow> Music \<times> effect list \<times> unit outcome" where
  "volume m ctx val =
     (let (st, m1) = get_voice_state m (message_server ctx)
      in if is_playing st then
           (case current st of
              None \<Rightarrow> (m1, [], Returned ())
            | Some cur \<Rightarrow>
                if float_overflows (real_of_int val / 100) then (m1, [], Raised OverflowError)
                else
                  (let p = player_set_volume (real_of_int val / 100) (player cur)
                   in (set_voice_state m1 (message_server ctx) (st\<lparr>current := Some (cur\<lparr>player := p\<rparr>)\<rparr>),
                       [Say (VOLUME_CHANGE (player_volume p))], Returned ())))
         else (m1, [], Returned ()))"

text \<open>Lines 170 to 176.\<close>

definition pause :: "Music \<Rightarrow> Ctx \<Rightarrow> Music \<times> effect list" where
  "pause m ctx =
     (let (st, m1) = get_voice_state m (message_server ctx)
      in if is_playing st then
           (set_voice_state m1 (message_server ctx) (on_player player_pause st), [Call_pause])
         else (m1, []))"

text \<open>Lines 178 to 184.\<close>

definition resume :: "Music \<Rightarrow> Ctx \<Rightarrow> Music \<times> effect list" where
  "resume m ctx =
     (let (st, m1) = get_voice_state m (message_server ctx)
      in if is_playing st then
           (set_voice_state m1 (message_server ctx) (on_player player_resume st), [Call_resume])
         else (m1, []))"

text \<open>
  Lines 186 to 203. The player of a playing entry is stopped; then, under \<^verbatim>\<open>try\<close>, the task
  is cancelled, the entry of the dictionary is deleted and the voice client is
  disconnected. With no voice client, \<^verbatim>\<open>state.voice.disconnect\<close> raises; the bare
  \<^verbatim>\<open>except\<close> swallows that, and whatever \<^verbatim>\<open>disconnect\<close> raises. The state object
  \<open>st2\<close> is no longer in the dictionary afterwards.
\<close>

definition stop :: "Music \<Rightarrow> Ctx \<Rightarrow> Music \<times> effect list" where
  "stop m ctx =
     (let (st, m1) = get_voice_state m (message_server ctx);
          (st1, effs1) = (if is_playing st then (on_player player_stop st, [Call_stop]) else (st, []));
          st2 = st1\<lparr>audio_player := Cancelled\<rparr>;
          m2 = m1\<lparr>voice_states := (voice_states m1)(message_server ctx := None)\<rparr>
      in (m2, effs1 @ (case voice st2 of None \<Rightarrow> [] | Some v \<Rightarrow> [Call_disconnect])))"

text \<open>\<^verbatim>\<open>Music.skip\<close>, lines 205 to 230.\<close>

definition skip :: "Music \<Rightarrow> Ctx \<Rightarrow> Music \<times> effect list" where
  "skip m ctx =
     (let (st, m1) = get_voice_state m (message_server ctx)
      in if \<not> is_playing st then (m1, [Say NOT_PLAYING])
         else
           (case current st of
              None \<Rightarrow> (m1, [Say NOT_PLAYING])
            | Some cur \<Rightarrow>
                (let voter = message_author ctx
                 in if voter = requester cur then
                      (let (st1, effs1) = VoiceState_skip st
                       in (set_voice_state m1 (message_server ctx) st1,
                           Say (SKIP_REQUESTER cur (requester cur)) # effs1))
                    else if voter |\<notin>| skip_votes st then
                      (let st1 = st\<lparr>skip_votes := finsert voter (skip_votes st)\<rparr>;
                           total_votes = fcard (skip_votes st1)
                       in if total_votes \<ge> 3 then
                            (let (st2, effs2) = VoiceState_skip st1
                             in (set_voice_state m1 (message_server ctx) st2,
                                 Say SKIP_VOTE_PASSED # effs2))
                          else
                            (set_voice_state m1 (message_server ctx) st1,
                             [Say (SKIP_VOTE_PASSED_format total_votes)]))
                    else (m1, [Say SKIP_ALREADY_VOTED]))))"

text \<open>Lines 232 to 241.\<close>

definition playing :: "Music \<Rightarrow> Ctx \<Rightarrow> Music \<times> effect list" where
  "playing m ctx =
     (let (st, m1) = get_voice_state m (message_server ctx)
      in case current st of
           None \<Rightarrow> (m1, [Say NOT_PLAYING])
         | Some cur \<Rightarrow> (m1, [Say (NOW_PLAYING cur)]))"

section \<open>Runs\<close>

text \<open>
  What can happen to the cog: a command with the results of the external calls it makes, a
  scheduling of the task of a registered state, the end of the medium of its current entry,
  and the callback \<^verbatim>\<open>after\<close> of the player, which the player invokes once it has ended.
  The callback may come at any moment after the end, and the events of different servers
  and users interleave freely: what holds of every run here holds of every run of the cog.
  \<^verbatim>\<open>__unload\<close> discards the cog and is not an event.
\<close>

datatype event =
    Join Ctx "Channel option" "exn option"
  | Summon Ctx "exn option"
  | Play Ctx string "exn option" "exn option"
  | Volume Ctx int
  | Pause Ctx
  | Resume Ctx
  | Stop Ctx
  | Skip Ctx
  | Playing Ctx
  | Task server_id
  | Media_ends server_id
  | After server_id

definition on_state :: "server_id \<Rightarrow> (VoiceState \<Rightarrow> VoiceState \<times> effect list) \<Rightarrow> Music \<Rightarrow> Music \<times> effect list" where
  "on_state sid f m =
     (case voice_states m sid of
        None \<Rightarrow> (m, [])
      | Some st \<Rightarrow> (let (st1, effs) = f st in (set_voice_state m sid st1, effs)))"

definition after_callback :: "VoiceState \<Rightarrow> VoiceState" where
  "after_callback st =
     (case current st of
        None \<Rightarrow> st
      | Some e \<Rightarrow> if is_done (player e) then toggle_next st else st)"

fun step :: "event \<Rightarrow> Music \<Rightarrow> Music \<times> effect list" where
  "step (Join ctx chan jr) m = (case join m ctx chan jr of (m1, effs, r) \<Rightarrow> (m1, effs))"
| "step (Summon ctx jr) m = (case summon m ctx jr of (m1, effs, r) \<Rightarrow> (m1, effs))"
| "step (Play ctx song jr res) m = (case play m ctx song jr res of (m1, effs, r) \<Rightarrow> (m1, effs))"
| "step (Volume ctx val) m = (case volume m ctx val of (m1, effs, r) \<Rightarrow> (m1, effs))"
| "step (Pause ctx) m = pause m ctx"
| "step (Resume ctx) m = resume m ctx"
| "step (Stop ctx) m = stop m ctx"
| "step (Skip ctx) m = skip m ctx"
| "step (Playing ctx) m = playing m ctx"
| "step (Task sid) m = on_state sid audio_player_task m"
| "step (Media_ends sid) m = on_state sid (\<lambda>st. (media_ends st, [])) m"
| "step (After sid) m = on_state sid (\<lambda>st. (after_callback st, [])) m"

text \<open>The server whose state an event is about.\<close>

fun event_server :: "event \<Rightarrow> server_id" where
  "event_server (Join ctx chan jr) =
     (case chan of
        Some c \<Rightarrow> channel_server c
      | None \<Rightarrow> (case author_voice_channel ctx of Some c \<Rightarrow> channel_server c | None \<Rightarrow> message_server ctx))"
| "event_server (Summon ctx jr) = message_server ctx"
| "event_server (Play ctx song jr res) = message_server ctx"
| "event_server (Volume ctx val) = message_server ctx"
| "event_server (Pause ctx) = message_server ctx"
| "event_server (Resume ctx) = message_server ctx"
| "event_server (Stop ctx) = message_server ctx"
| "event_server (Skip ctx) = message_server ctx"
| "event_server (Playing ctx) = message_server ctx"
| "event_server (Task sid) = sid"
| "event_server (Media_ends sid) = sid"
| "event_server (After sid) = sid"

text \<open>A run: the events in order, with the effects of each, tagged by its server.\<close>

fun run :: "event list \<Rightarrow> Music \<Rightarrow> Music \<times> (server_id \<times> effect) list" where
  "run [] m = (m, [])"
| "run (ev # evs) m =
     (case step ev m of
        (m1, effs) \<Rightarrow>
          (case run evs m1 of
             (m2, tr) \<Rightarrow> (m2, map (\<lambda>eff. (event_server ev, eff)) effs @ tr)))"

definition new_Music :: Music where
  "new_Music = \<lparr>voice_states = Map.empty\<rparr>"

inductive reachable :: "Music \<Rightarrow> bool" where
  reachable_new: "reachable new_Music"
| reachable_step: "reachable m \<Longrightarrow> reachable (fst (step ev m))"

text \<open>
  What a run shows of one server: the entries the loop announced and started, the entries
  \<^verbatim>\<open>play\<close> acknowledged and put on the queue, and the queue itself.
\<close>

fun started_entry :: "effect \<Rightarrow> VoiceEntry list" where
  "started_entry (Send_message c (NOW_PLAYING e)) = [e]"
| "started_entry eff = []"

fun enqueued_entry :: "effect \<Rightarrow> VoiceEntry list" where
  "enqueued_entry (Say (ENQUEUE_SUCCESS e)) = [e]"
| "enqueued_entry eff = []"

definition started_by :: "effect list \<Rightarrow> VoiceEntry list" where
  "started_by effs = concat (map started_entry effs)"

definition enqueued_by :: "effect list \<Rightarrow> VoiceEntry list" where
  "enqueued_by effs = concat (map enqueued_entry effs)"

definition effects_on :: "server_id \<Rightarrow> (server_id \<times> effect) list \<Rightarrow> effect list" where
  "effects_on sid tr = map snd (filter (\<lambda>p. fst p = sid) tr)"

definition started :: "server_id \<Rightarrow> (server_id \<times> effect) list \<Rightarrow> VoiceEntry list" where
  "started sid tr = started_by (effects_on sid tr)"

definition enqueued :: "server_id \<Rightarrow> (server_id \<times> effect) list \<Rightarrow> VoiceEntry list" where
  "enqueued sid tr = enqueued_by (effects_on sid tr)"

definition queue_of :: "Music \<Rightarrow> server_id \<Rightarrow> VoiceEntry list" where
  "queue_of m sid = (case voice_states m sid of None \<Rightarrow> [] | Some st \<Rightarrow> songs st)"

fun stops :: "server_id \<Rightarrow> event \<Rightarrow> bool" where
  "stops sid (Stop ctx) = (message_server ctx = sid)"
| "stops sid ev = False"

section \<open>Concrete states\<close>

text \<open>
  A voice channel of server 4, a command of user \<open>u\<close> sent from there, the entry that
  \<^verbatim>\<open>play\<close> builds for a song of user \<open>u\<close>, and the state of server 4 while the song
  \<open>''a''\<close> of user 10 plays, with given votes and queue.
\<close>

definition ex_channel :: Channel where
  "ex_channel = \<lparr>channel_id = 5, channel_server = 4\<rparr>"

definition ex_ctx :: "user_id \<Rightarrow> Ctx" where
  "ex_ctx u = \<lparr>message_server = 4, message_author = u, author_voice_channel = Some ex_channel,
     message_channel = 2\<rparr>"

definition ex_entry :: "user_id \<Rightarrow> string \<Rightarrow> VoiceEntry" where
  "ex_entry u s = \<lparr>requester = u, channel = 2, player = (new_player s)\<lparr>player_volume := 6 / 10\<rparr>\<rparr>"

definition ex_current :: VoiceEntry where
  "ex_current = (ex_entry 10 ''a'')\<lparr>player := player_start (player (ex_entry 10 ''a''))\<rparr>"

definition ex_state :: "user_id fset \<Rightarrow> VoiceEntry list \<Rightarrow> VoiceState" where
  "ex_state votes q = \<lparr>current = Some ex_current, voice = Some ex_channel, play_next_song = False,
     songs = q, skip_votes = votes, audio_player = At_wait\<rparr>"

definition ex_music :: "VoiceState \<Rightarrow> Music" where
  "ex_music st = \<lparr>voice_states = [4 \<mapsto> st]\<rparr>"

text \<open>
  Modelled from the spec: the range of the volume of a PlaybackHandle, section 6 of the
  specification (\<^verbatim>\<open>volume: float [settable, 0.0-2.0]\<close>). Nothing in the source states a
  range.
\<close>

definition settable_volume :: "real \<Rightarrow> bool" where
  "settable_volume v = (0 \<le> v \<and> v \<le> 2)"

text \<open>
  A state with no voice client has no current entry and an empty queue: \<^verbatim>\<open>play\<close> creates a
  player only through \<^verbatim>\<open>state.voice\<close>, and nothing assigns \<^verbatim>\<open>None\<close> to \<^verbatim>\<open>voice\<close>.
\<close>

definition idle_without_voice :: "VoiceState \<Rightarrow> bool" where
  "idle_without_voice st =
     (case voice st of None \<Rightarrow> current st = None \<and> songs st = [] | Some v \<Rightarrow> True)"

definition idle_registry :: "Music \<Rightarrow> bool" where
  "idle_registry m = (\<forall>s st. voice_states m s = Some st \<longrightarrow> idle_without_voice st)"

text \<open>
  A run on server 4: users 10 and 12 ask for a song each, the first starts, user 13 asks for
  a third and user 10 skips the own song; the second song starts and ends by itself, the
  third starts.
\<close>

definition ex_run :: "event list" where
  "ex_run =
     [Play (ex_ctx 10) ''a'' None None, Play (ex_ctx 12) ''b'' None None, Task 4,
      Play (ex_ctx 13) ''c'' None None, Skip (ex_ctx 10), After 4, Task 4,
      Media_ends 4, After 4, Task 4]"

section \<open>Skip votes\<close>

lemma is_playing_ended:
  "\<not> is_playing (st\<lparr>skip_votes := vs, current := Some (cur\<lparr>player := player_stop (player cur)\<rparr>)\<rparr>)"
  by (simp add: is_playing_def is_done_def player_stop_def split: option.splits)

lemma VoiceState_skip_playing:
  assumes "is_playing st" and "current st = Some cur"
  shows "VoiceState_skip st =
    (st\<lparr>skip_votes := {||}, current := Some (cur\<lparr>player := player_stop (player cur)\<rparr>)\<rparr>, [Call_stop])"
  using assms
  by (simp add: VoiceState_skip_def is_playing_def on_player_def split: option.splits)

lemma ex_state_playing: "is_playing (ex_state votes q)"
  by (simp add: ex_state_def ex_current_def ex_entry_def is_playing_def is_done_def
      new_player_def player_start_def)

lemma ex_music_lookup: "voice_states (ex_music st) (message_server (ex_ctx u)) = Some st"
  by (simp add: ex_music_def ex_ctx_def)

lemma ex_music_store: "set_voice_state (ex_music st) (message_server (ex_ctx u)) st' = ex_music st'"
  by (simp add: ex_music_def ex_ctx_def set_voice_state_def)

text \<open>
  C1. On a playing entry, a voter who is not the requester of the entry and whose id is in
  \<^verbatim>\<open>skip_votes\<close> gets \<^verbatim>\<open>SKIP_ALREADY_VOTED\<close> and nothing changes. Otherwise the id is
  added: while the set then has fewer than 3 ids, the answer carries that number and only
  the votes change; with 3 ids or more the answer is \<^verbatim>\<open>SKIP_VOTE_PASSED\<close>, the votes are
  cleared and the player of the current entry is stopped, so the entry no longer plays.
\<close>

theorem vote_skip_quorum:
  assumes "voice_states m (message_server ctx) = Some st"
    and "is_playing st"
    and "current st = Some cur"
    and "message_author ctx \<noteq> requester cur"
  shows "skip m ctx =
      (if message_author ctx |\<in>| skip_votes st then (m, [Say SKIP_ALREADY_VOTED])
       else if fcard (finsert (message_author ctx) (skip_votes st)) < 3 then
         (set_voice_state m (message_server ctx)
            (st\<lparr>skip_votes := finsert (message_author ctx) (skip_votes st)\<rparr>),
          [Say (SKIP_VOTE_PASSED_format (fcard (finsert (message_author ctx) (skip_votes st))))])
       else
         (set_voice_state m (message_server ctx)
            (st\<lparr>skip_votes := {||}, current := Some (cur\<lparr>player := player_stop (player cur)\<rparr>)\<rparr>),
          [Say SKIP_VOTE_PASSED, Call_stop]))
    \<and> \<not> is_playing (st\<lparr>skip_votes := {||}, current := Some (cur\<lparr>player := player_stop (player cur)\<rparr>)\<rparr>)"
proof -
  let ?voter = "message_author ctx"
  let ?st1 = "st\<lparr>skip_votes := finsert ?voter (skip_votes st)\<rparr>"
  have lookup: "get_voice_state m (message_server ctx) = (st, m)"
    using assms(1) by (simp add: get_voice_state_def)
  have playing1: "is_playing ?st1"
    using assms(2) by (simp add: is_playing_def split: option.splits)
  have forced: "VoiceState_skip ?st1 =
      (st\<lparr>skip_votes := {||}, current := Some (cur\<lparr>player := player_stop (player cur)\<rparr>)\<rparr>, [Call_stop])"
    using VoiceState_skip_playing [OF playing1, of cur] assms(3) by simp
  have "skip m ctx =
      (if ?voter |\<in>| skip_votes st then (m, [Say SKIP_ALREADY_VOTED])
       else if fcard (finsert ?voter (skip_votes st)) < 3 then
         (set_voice_state m (message_server ctx) ?st1,
          [Say (SKIP_VOTE_PASSED_format (fcard (finsert ?voter (skip_votes st))))])
       else
         (set_voice_state m (message_server ctx)
            (st\<lparr>skip_votes := {||}, current := Some (cur\<lparr>player := player_stop (player cur)\<rparr>)\<rparr>),
          [Say SKIP_VOTE_PASSED, Call_stop]))"
    using assms(2-4) forced by (simp add: skip_def lookup Let_def not_less)
  then show ?thesis
    using is_playing_ended by blast
qed

text \<open>
  With no vote yet, the users 11 and 12 get the counts 1 and 2, user 11 voting again is told
  so and changes nothing, and user 13 makes the quorum: the song of user 10 is stopped.
\<close>

theorem vote_skip_quorum_witness:
  "skip (ex_music (ex_state {||} [])) (ex_ctx 11) =
     (ex_music (ex_state {|11|} []), [Say (SKIP_VOTE_PASSED_format 1)])
   \<and> skip (ex_music (ex_state {|11|} [])) (ex_ctx 12) =
     (ex_music (ex_state {|12, 11|} []), [Say (SKIP_VOTE_PASSED_format 2)])
   \<and> skip (ex_music (ex_state {|12, 11|} [])) (ex_ctx 11) =
     (ex_music (ex_state {|12, 11|} []), [Say SKIP_ALREADY_VOTED])
   \<and> skip (ex_music (ex_state {|12, 11|} [])) (ex_ctx 13) =
     (ex_music ((ex_state {||} [])
        \<lparr>current := Some (ex_current\<lparr>player := player_stop (player ex_current)\<rparr>)\<rparr>),
      [Say SKIP_VOTE_PASSED, Call_stop])
   \<and> \<not> is_playing ((ex_state {||} [])
        \<lparr>current := Some (ex_current\<lparr>player := player_stop (player ex_current)\<rparr>)\<rparr>)"
proof -
  have cur: "current (ex_state votes q) = Some ex_current" for votes q
    by (simp add: ex_state_def)
  have voter: "message_author (ex_ctx u) = u" for u
    by (simp add: ex_ctx_def)
  have req: "requester ex_current = 10"
    by (simp add: ex_current_def ex_entry_def)
  have votes: "skip_votes (ex_state votes q) = votes" for votes q
    by (simp add: ex_state_def)
  have upd: "(ex_state votes q)\<lparr>skip_votes := votes'\<rparr> = ex_state votes' q" for votes votes' q
    by (simp add: ex_state_def)
  note inst = vote_skip_quorum [OF ex_music_lookup ex_state_playing cur]
  show ?thesis
    using inst [of 11 "{||}" "[]"] inst [of 12 "{|11|}" "[]"]
      inst [of 11 "{|12, 11|}" "[]"] inst [of 13 "{|12, 11|}" "[]"]
    by (simp add: voter req votes upd ex_music_store fcard_finsert_if fcard_fempty)
qed

text \<open>
  C2. On a playing entry, the skip of the requester of the entry is answered with
  \<^verbatim>\<open>SKIP_REQUESTER\<close> and does what \<^verbatim>\<open>VoiceState.skip\<close> does, whatever the votes are: the
  votes are cleared, the player of the current entry is stopped, the entry no longer plays,
  and the id of the requester is not among the votes.
\<close>

theorem requester_skip_forces:
  assumes "voice_states m (message_server ctx) = Some st"
    and "is_playing st"
    and "current st = Some cur"
    and "message_author ctx = requester cur"
  shows "skip m ctx =
      (set_voice_state m (message_server ctx) (fst (VoiceState_skip st)),
       Say (SKIP_REQUESTER cur (requester cur)) # snd (VoiceState_skip st))
    \<and> VoiceState_skip st =
      (st\<lparr>skip_votes := {||}, current := Some (cur\<lparr>player := player_stop (player cur)\<rparr>)\<rparr>,
       [Call_stop])
    \<and> is_done (player_stop (player cur))
    \<and> \<not> is_playing (fst (VoiceState_skip st))
    \<and> requester cur |\<notin>| skip_votes (fst (VoiceState_skip st))"
proof -
  have lookup: "get_voice_state m (message_server ctx) = (st, m)"
    using assms(1) by (simp add: get_voice_state_def)
  have forced: "VoiceState_skip st =
      (st\<lparr>skip_votes := {||}, current := Some (cur\<lparr>player := player_stop (player cur)\<rparr>)\<rparr>,
       [Call_stop])"
    using VoiceState_skip_playing [OF assms(2,3)] .
  have "skip m ctx =
      (set_voice_state m (message_server ctx) (fst (VoiceState_skip st)),
       Say (SKIP_REQUESTER cur (requester cur)) # snd (VoiceState_skip st))"
    using assms(2-4) by (simp add: skip_def lookup Let_def split_beta)
  moreover have "is_done (player_stop (player cur))"
    by (simp add: is_done_def player_stop_def)
  moreover have "\<not> is_playing (fst (VoiceState_skip st))"
    using is_playing_ended by (simp add: forced)
  moreover have "requester cur |\<notin>| skip_votes (fst (VoiceState_skip st))"
    by (simp add: forced)
  ultimately show ?thesis
    using forced by blast
qed

text \<open>User 10 skips the own song although users 11 and 12 have voted already.\<close>

theorem requester_skip_forces_witness:
  "skip (ex_music (ex_state {|12, 11|} [])) (ex_ctx 10) =
     (ex_music ((ex_state {||} [])
        \<lparr>current := Some (ex_current\<lparr>player := player_stop (player ex_current)\<rparr>)\<rparr>),
      [Say (SKIP_REQUESTER ex_current 10), Call_stop])
   \<and> \<not> is_playing ((ex_state {||} [])
        \<lparr>current := Some (ex_current\<lparr>player := player_stop (player ex_current)\<rparr>)\<rparr>)"
proof -
  have cur: "current (ex_state {|12, 11|} []) = Some ex_current"
    by (simp add: ex_state_def)
  have req: "message_author (ex_ctx 10) = requester ex_current"
    by (simp add: ex_ctx_def ex_current_def ex_entry_def)
  have ten: "requester ex_current = 10"
    by (simp add: ex_current_def ex_entry_def)
  have upd: "(ex_state {|12, 11|} [])\<lparr>skip_votes := {||}\<rparr> = ex_state {||} []"
    by (simp add: ex_state_def)
  show ?thesis
    using requester_skip_forces [OF ex_music_lookup ex_state_playing cur req]
    by (auto simp: ex_music_store upd ten)
qed

section \<open>The end of an entry\<close>

lemma media_ends_playing:
  assumes "is_playing st" and "current st = Some cur"
  shows "media_ends st = st\<lparr>current := Some (cur\<lparr>player := player_stop (player cur)\<rparr>)\<rparr>"
  using assms by (simp add: media_ends_def on_player_def)

lemma is_playing_ended_current:
  "\<not> is_playing (st\<lparr>current := Some (cur\<lparr>player := player_stop (player cur)\<rparr>)\<rparr>)"
  by (simp add: is_playing_def is_done_def player_stop_def split: option.splits)

lemma task_after_end:
  assumes "audio_player st = At_wait" and "current st = Some cur" and "is_done (player cur)"
  shows "audio_player_task (after_callback st) =
    (case songs st of
       [] \<Rightarrow> (st\<lparr>play_next_song := False, audio_player := At_get\<rparr>, [])
     | e # q \<Rightarrow> (st\<lparr>play_next_song := False,
                      current := Some (e\<lparr>player := player_start (player e)\<rparr>), songs := q,
                      audio_player := At_wait\<rparr>,
                  [Send_message (channel e) (NOW_PLAYING e), Call_start]))"
  using assms
  by (simp add: after_callback_def toggle_next_def audio_player_task_def take_song_def
      split: list.splits)

lemma is_done_player_stop: "is_done (player_stop p)"
  by (simp add: is_done_def player_stop_def)

text \<open>
  C3, as the specification states it, fails: after a forced skip and after the natural end
  of the medium, with an empty queue, nothing plays and the task waits for the next entry,
  but \<^verbatim>\<open>current\<close> is still an entry.
\<close>

theorem current_stays_after_end:
  "is_playing (ex_state {|11|} [])
   \<and> \<not> is_playing (fst (audio_player_task (after_callback (fst (VoiceState_skip (ex_state {|11|} []))))))
   \<and> audio_player (fst (audio_player_task (after_callback (fst (VoiceState_skip (ex_state {|11|} []))))))
       = At_get
   \<and> current (fst (audio_player_task (after_callback (fst (VoiceState_skip (ex_state {|11|} []))))))
       \<noteq> None
   \<and> \<not> is_playing (fst (audio_player_task (after_callback (media_ends (ex_state {|11|} [])))))
   \<and> audio_player (fst (audio_player_task (after_callback (media_ends (ex_state {|11|} [])))))
       = At_get
   \<and> current (fst (audio_player_task (after_callback (media_ends (ex_state {|11|} [])))))
       \<noteq> None"
proof -
  let ?ended = "ex_current\<lparr>player := player_stop (player ex_current)\<rparr>"
  have cur: "current (ex_state {|11|} []) = Some ex_current"
    by (simp add: ex_state_def)
  have forced: "fst (VoiceState_skip (ex_state {|11|} [])) = (ex_state {||} [])\<lparr>current := Some ?ended\<rparr>"
    by (simp add: VoiceState_skip_playing [OF ex_state_playing cur]) (simp add: ex_state_def)
  have natural: "media_ends (ex_state {|11|} []) = (ex_state {|11|} [])\<lparr>current := Some ?ended\<rparr>"
    by (simp add: media_ends_playing [OF ex_state_playing cur])
  have after: "audio_player_task (after_callback ((ex_state vs [])\<lparr>current := Some ?ended\<rparr>)) =
      ((ex_state vs [])\<lparr>current := Some ?ended, audio_player := At_get\<rparr>, [])" for vs
    by (subst task_after_end [where cur = ?ended])
      (simp_all add: ex_state_def is_done_player_stop)
  have idle: "\<not> is_playing ((ex_state vs [])\<lparr>current := Some ?ended, audio_player := At_get\<rparr>)" for vs
    by (simp add: is_playing_def is_done_player_stop split: option.splits)
  show ?thesis
    by (simp add: ex_state_playing forced natural after idle)
qed

text \<open>
  The votes at the natural end of the medium: user 11 has voted to skip the song of user
  10; the song ends by itself; the next entry, of user 12, starts with the vote of user 11
  in \<^verbatim>\<open>skip_votes\<close>. (The documentation of \<^verbatim>\<open>Music.skip\<close> says that 3 skip votes are needed
  for the song to be skipped.)
\<close>

lemma votes_survive_natural_end:
  "audio_player_task (after_callback (media_ends (ex_state {|11|} [ex_entry 12 ''b'']))) =
     ((ex_state {|11|} [])\<lparr>current := Some ((ex_entry 12 ''b'')\<lparr>player := player_start (player (ex_entry 12 ''b''))\<rparr>)\<rparr>,
      [Send_message 2 (NOW_PLAYING (ex_entry 12 ''b'')), Call_start])"
proof -
  let ?ended = "ex_current\<lparr>player := player_stop (player ex_current)\<rparr>"
  have cur: "current (ex_state {|11|} [ex_entry 12 ''b'']) = Some ex_current"
    by (simp add: ex_state_def)
  have natural: "media_ends (ex_state {|11|} [ex_entry 12 ''b'']) =
      (ex_state {|11|} [ex_entry 12 ''b''])\<lparr>current := Some ?ended\<rparr>"
    by (simp add: media_ends_playing [OF ex_state_playing cur])
  show ?thesis
    unfolding natural
    by (subst task_after_end [where cur = ?ended])
      (simp_all add: ex_state_def is_done_player_stop, simp add: ex_entry_def)
qed

text \<open>
  C3, amended. Let an entry play while the task waits for the event. \<^verbatim>\<open>VoiceState.skip\<close>
  (the skip of the requester, or of the quorum) clears the votes and stops the player, so
  nothing plays; the natural end of the medium also leaves nothing playing. In both cases
  \<^verbatim>\<open>current\<close> keeps the ended entry, and when the task has been woken by the callback it
  is the ended entry still if the queue is empty, the head of the queue otherwise. After
  the forced skip the votes are empty then as well.
\<close>

theorem forced_skip_clears_votes:
  assumes "is_playing st"
    and "current st = Some cur"
    and "audio_player st = At_wait"
  shows "VoiceState_skip st =
      (st\<lparr>skip_votes := {||}, current := Some (cur\<lparr>player := player_stop (player cur)\<rparr>)\<rparr>, [Call_stop])
    \<and> media_ends st = st\<lparr>current := Some (cur\<lparr>player := player_stop (player cur)\<rparr>)\<rparr>
    \<and> \<not> is_playing (fst (VoiceState_skip st))
    \<and> \<not> is_playing (media_ends st)
    \<and> skip_votes (fst (audio_player_task (after_callback (fst (VoiceState_skip st))))) = {||}
    \<and> current (fst (audio_player_task (after_callback (fst (VoiceState_skip st))))) =
        (case songs st of
           [] \<Rightarrow> Some (cur\<lparr>player := player_stop (player cur)\<rparr>)
         | e # q \<Rightarrow> Some (e\<lparr>player := player_start (player e)\<rparr>))
    \<and> current (fst (audio_player_task (after_callback (media_ends st)))) =
        (case songs st of
           [] \<Rightarrow> Some (cur\<lparr>player := player_stop (player cur)\<rparr>)
         | e # q \<Rightarrow> Some (e\<lparr>player := player_start (player e)\<rparr>))"
proof -
  let ?ended = "cur\<lparr>player := player_stop (player cur)\<rparr>"
  have forced: "VoiceState_skip st = (st\<lparr>skip_votes := {||}, current := Some ?ended\<rparr>, [Call_stop])"
    using VoiceState_skip_playing [OF assms(1,2)] .
  have natural: "media_ends st = st\<lparr>current := Some ?ended\<rparr>"
    using media_ends_playing [OF assms(1,2)] .
  have a: "\<not> is_playing (fst (VoiceState_skip st))"
    by (simp add: forced is_playing_ended)
  have b: "\<not> is_playing (media_ends st)"
    by (simp add: natural is_playing_ended_current)
  have after_forced: "audio_player_task (after_callback (st\<lparr>skip_votes := {||}, current := Some ?ended\<rparr>)) =
      (case songs st of
         [] \<Rightarrow> (st\<lparr>skip_votes := {||}, current := Some ?ended, play_next_song := False,
                   audio_player := At_get\<rparr>, [])
       | e # q \<Rightarrow> (st\<lparr>skip_votes := {||}, play_next_song := False,
                        current := Some (e\<lparr>player := player_start (player e)\<rparr>), songs := q\<rparr>,
                    [Send_message (channel e) (NOW_PLAYING e), Call_start]))"
    by (subst task_after_end [where cur = ?ended])
      (simp_all add: assms(3) is_done_player_stop split: list.splits)
  have after_natural: "audio_player_task (after_callback (st\<lparr>current := Some ?ended\<rparr>)) =
      (case songs st of
         [] \<Rightarrow> (st\<lparr>current := Some ?ended, play_next_song := False, audio_player := At_get\<rparr>, [])
       | e # q \<Rightarrow> (st\<lparr>play_next_song := False,
                        current := Some (e\<lparr>player := player_start (player e)\<rparr>), songs := q\<rparr>,
                    [Send_message (channel e) (NOW_PLAYING e), Call_start]))"
    by (subst task_after_end [where cur = ?ended])
      (simp_all add: assms(3) is_done_player_stop split: list.splits)
  have c: "skip_votes (fst (audio_player_task (after_callback (fst (VoiceState_skip st))))) = {||}"
    by (simp add: forced after_forced split: list.splits)
  have d: "current (fst (audio_player_task (after_callback (fst (VoiceState_skip st))))) =
        (case songs st of [] \<Rightarrow> Some ?ended | e # q \<Rightarrow> Some (e\<lparr>player := player_start (player e)\<rparr>))"
    by (simp add: forced after_forced split: list.splits)
  have e: "current (fst (audio_player_task (after_callback (media_ends st)))) =
        (case songs st of [] \<Rightarrow> Some ?ended | e # q \<Rightarrow> Some (e\<lparr>player := player_start (player e)\<rparr>))"
    by (simp add: natural after_natural split: list.splits)
  show ?thesis
    using forced natural a b c d e by blast
qed

text \<open>
  The song of user 10 is skipped while the vote of user 11 stands and the song of user 12
  is queued: the votes are empty when the song of user 12 has become current.
\<close>

theorem forced_skip_clears_votes_witness:
  "\<not> is_playing (fst (VoiceState_skip (ex_state {|11|} [ex_entry 12 ''b''])))
   \<and> skip_votes (fst (audio_player_task (after_callback (fst (VoiceState_skip (ex_state {|11|} [ex_entry 12 ''b'']))))))
       = {||}
   \<and> current (fst (audio_player_task (after_callback (fst (VoiceState_skip (ex_state {|11|} [ex_entry 12 ''b'']))))))
       = Some ((ex_entry 12 ''b'')\<lparr>player := player_start (player (ex_entry 12 ''b''))\<rparr>)"
proof -
  have cur: "current (ex_state {|11|} [ex_entry 12 ''b'']) = Some ex_current"
    by (simp add: ex_state_def)
  have wait: "audio_player (ex_state {|11|} [ex_entry 12 ''b'']) = At_wait"
    by (simp add: ex_state_def)
  have q: "songs (ex_state {|11|} [ex_entry 12 ''b'']) = [ex_entry 12 ''b'']"
    by (simp add: ex_state_def)
  show ?thesis
    using forced_skip_clears_votes [OF ex_state_playing cur wait, unfolded q list.case]
    by blast
qed

section \<open>The status query\<close>

lemma get_voice_state_registered:
  "voice_states m sid = Some st \<Longrightarrow> get_voice_state m sid = (st, m)"
  by (simp add: get_voice_state_def)

text \<open>
  C10. \<^verbatim>\<open>playing\<close> answers \<^verbatim>\<open>NOT_PLAYING\<close> exactly when \<^verbatim>\<open>current\<close> of the state of the
  server is \<^verbatim>\<open>None\<close>, and names the current entry otherwise, also when the player of that
  entry is done and \<^verbatim>\<open>is_playing()\<close> is false. The natural end of the medium of a playing
  entry leads to such a state.
\<close>

theorem playing_names_current:
  "playing m ctx =
     (snd (get_voice_state m (message_server ctx)),
      [Say (case current (fst (get_voice_state m (message_server ctx))) of
              None \<Rightarrow> NOT_PLAYING
            | Some cur \<Rightarrow> NOW_PLAYING cur)])
   \<and> (snd (playing m ctx) = [Say NOT_PLAYING]) =
       (current (fst (get_voice_state m (message_server ctx))) = None)
   \<and> (voice_states m (message_server ctx) = Some st \<and> current st = Some e \<and> is_done (player e)
        \<longrightarrow> playing m ctx = (m, [Say (NOW_PLAYING e)]) \<and> \<not> is_playing st)
   \<and> (voice_states m (message_server ctx) = Some st \<and> current st = Some cur \<and> is_playing st
        \<longrightarrow> step (Media_ends (message_server ctx)) m =
              (set_voice_state m (message_server ctx)
                 (st\<lparr>current := Some (cur\<lparr>player := player_stop (player cur)\<rparr>)\<rparr>), [])
            \<and> is_done (player (cur\<lparr>player := player_stop (player cur)\<rparr>))
            \<and> playing (fst (step (Media_ends (message_server ctx)) m)) ctx =
                (fst (step (Media_ends (message_server ctx)) m),
                 [Say (NOW_PLAYING (cur\<lparr>player := player_stop (player cur)\<rparr>))])
            \<and> \<not> is_playing (st\<lparr>current := Some (cur\<lparr>player := player_stop (player cur)\<rparr>)\<rparr>))"
proof -
  have a: "playing m ctx =
     (snd (get_voice_state m (message_server ctx)),
      [Say (case current (fst (get_voice_state m (message_server ctx))) of
              None \<Rightarrow> NOT_PLAYING
            | Some cur \<Rightarrow> NOW_PLAYING cur)])"
    by (simp add: playing_def split_beta split: option.splits)
  have b: "(snd (playing m ctx) = [Say NOT_PLAYING]) =
       (current (fst (get_voice_state m (message_server ctx))) = None)"
    by (simp add: a split: option.splits)
  have c: "playing m ctx = (m, [Say (NOW_PLAYING e)]) \<and> \<not> is_playing st"
    if "voice_states m (message_server ctx) = Some st" "current st = Some e" "is_done (player e)"
    using that by (simp add: a get_voice_state_registered is_playing_def split: option.splits)
  have d: "step (Media_ends (message_server ctx)) m =
              (set_voice_state m (message_server ctx)
                 (st\<lparr>current := Some (cur\<lparr>player := player_stop (player cur)\<rparr>)\<rparr>), [])
            \<and> is_done (player (cur\<lparr>player := player_stop (player cur)\<rparr>))
            \<and> playing (fst (step (Media_ends (message_server ctx)) m)) ctx =
                (fst (step (Media_ends (message_server ctx)) m),
                 [Say (NOW_PLAYING (cur\<lparr>player := player_stop (player cur)\<rparr>))])
            \<and> \<not> is_playing (st\<lparr>current := Some (cur\<lparr>player := player_stop (player cur)\<rparr>)\<rparr>)"
    if "voice_states m (message_server ctx) = Some st" "current st = Some cur" "is_playing st"
  proof -
    have ends: "step (Media_ends (message_server ctx)) m =
        (set_voice_state m (message_server ctx)
           (st\<lparr>current := Some (cur\<lparr>player := player_stop (player cur)\<rparr>)\<rparr>), [])"
      using that by (simp add: on_state_def media_ends_playing)
    have "playing (set_voice_state m (message_server ctx)
           (st\<lparr>current := Some (cur\<lparr>player := player_stop (player cur)\<rparr>)\<rparr>)) ctx =
        (set_voice_state m (message_server ctx)
           (st\<lparr>current := Some (cur\<lparr>player := player_stop (player cur)\<rparr>)\<rparr>),
         [Say (NOW_PLAYING (cur\<lparr>player := player_stop (player cur)\<rparr>))])"
      by (simp add: playing_def get_voice_state_def set_voice_state_def)
    then show ?thesis
      by (simp add: ends is_done_player_stop is_playing_ended_current del: step.simps)
  qed
  show ?thesis
    using a b c d by blast
qed

text \<open>
  Nothing registered: \<^verbatim>\<open>NOT_PLAYING\<close>. The song of user 10 plays, then ends by itself:
  \<^verbatim>\<open>playing\<close> names it before and after, and after the end \<^verbatim>\<open>is_playing()\<close> is false.
\<close>

theorem playing_names_current_witness:
  "snd (playing new_Music (ex_ctx 11)) = [Say NOT_PLAYING]
   \<and> playing (ex_music (ex_state {||} [])) (ex_ctx 11) =
       (ex_music (ex_state {||} []), [Say (NOW_PLAYING ex_current)])
   \<and> fst (step (Media_ends 4) (ex_music (ex_state {||} []))) =
       ex_music ((ex_state {||} [])\<lparr>current := Some (ex_current\<lparr>player := player_stop (player ex_current)\<rparr>)\<rparr>)
   \<and> snd (playing (fst (step (Media_ends 4) (ex_music (ex_state {||} [])))) (ex_ctx 11)) =
       [Say (NOW_PLAYING (ex_current\<lparr>player := player_stop (player ex_current)\<rparr>))]
   \<and> \<not> is_playing ((ex_state {||} [])\<lparr>current := Some (ex_current\<lparr>player := player_stop (player ex_current)\<rparr>)\<rparr>)"
proof -
  have cur: "current (ex_state {||} []) = Some ex_current"
    by (simp add: ex_state_def)
  have srv: "message_server (ex_ctx 11) = 4"
    by (simp add: ex_ctx_def)
  have none: "current (fst (get_voice_state new_Music (message_server (ex_ctx 11)))) = None"
    by (simp add: get_voice_state_def new_Music_def new_VoiceState_def)
  have reg: "get_voice_state (ex_music (ex_state {||} [])) (message_server (ex_ctx 11)) =
      (ex_state {||} [], ex_music (ex_state {||} []))"
    by (simp add: get_voice_state_registered ex_music_lookup)
  have one: "snd (playing new_Music (ex_ctx 11)) = [Say NOT_PLAYING]"
    using playing_names_current [of new_Music "ex_ctx 11"] none by blast
  have two: "playing (ex_music (ex_state {||} [])) (ex_ctx 11) =
       (ex_music (ex_state {||} []), [Say (NOW_PLAYING ex_current)])"
    using playing_names_current [of "ex_music (ex_state {||} [])" "ex_ctx 11"]
    by (simp add: reg cur)
  have three: "step (Media_ends (message_server (ex_ctx 11))) (ex_music (ex_state {||} [])) =
              (set_voice_state (ex_music (ex_state {||} [])) (message_server (ex_ctx 11))
                 ((ex_state {||} [])\<lparr>current := Some (ex_current\<lparr>player := player_stop (player ex_current)\<rparr>)\<rparr>), [])
            \<and> playing (fst (step (Media_ends (message_server (ex_ctx 11))) (ex_music (ex_state {||} [])))) (ex_ctx 11) =
                (fst (step (Media_ends (message_server (ex_ctx 11))) (ex_music (ex_state {||} []))),
                 [Say (NOW_PLAYING (ex_current\<lparr>player := player_stop (player ex_current)\<rparr>))])
            \<and> \<not> is_playing ((ex_state {||} [])\<lparr>current := Some (ex_current\<lparr>player := player_stop (player ex_current)\<rparr>)\<rparr>)"
    using playing_names_current [of "ex_music (ex_state {||} [])" "ex_ctx 11" "ex_state {||} []" _ ex_current]
      ex_music_lookup [of "ex_state {||} []" 11] cur ex_state_playing [of "{||}" "[]"]
    by blast
  show ?thesis
    using one two three by (auto simp: srv ex_music_store [of _ 11, unfolded srv] simp del: step.simps)
qed

section \<open>Stopping\<close>

text \<open>
  C6. The first \<^verbatim>\<open>stop\<close> stops the player of a playing entry, disconnects a connected
  voice client and removes the state of the server from the dictionary (its task
  cancelled). A second \<^verbatim>\<open>stop\<close> for the same server then changes nothing, calls nothing
  and says nothing; \<^verbatim>\<open>stop\<close> raises nothing.
\<close>

theorem stop_twice:
  assumes "message_server ctx2 = message_server ctx"
  shows "stop m ctx =
      (m\<lparr>voice_states := (voice_states m)(message_server ctx := None)\<rparr>,
       (if is_playing (fst (get_voice_state m (message_server ctx))) then [Call_stop] else []) @
       (case voice (fst (get_voice_state m (message_server ctx))) of
          None \<Rightarrow> []
        | Some v \<Rightarrow> [Call_disconnect]))
    \<and> stop (fst (stop m ctx)) ctx2 = (fst (stop m ctx), [])"
proof -
  have first: "stop m ctx =
      (m\<lparr>voice_states := (voice_states m)(message_server ctx := None)\<rparr>,
       (if is_playing (fst (get_voice_state m (message_server ctx))) then [Call_stop] else []) @
       (case voice (fst (get_voice_state m (message_server ctx))) of
          None \<Rightarrow> []
        | Some v \<Rightarrow> [Call_disconnect]))"
    by (simp add: stop_def get_voice_state_def Let_def on_player_def split: option.splits)
  have idle: "\<not> is_playing new_VoiceState"
    by (simp add: is_playing_def new_VoiceState_def)
  have second: "stop (m\<lparr>voice_states := (voice_states m)(message_server ctx := None)\<rparr>) ctx2 =
      (m\<lparr>voice_states := (voice_states m)(message_server ctx := None)\<rparr>, [])"
    using assms idle
    by (simp add: stop_def get_voice_state_def Let_def) (simp add: new_VoiceState_def)
  show ?thesis
    using second by (simp add: first)
qed

text \<open>
  The song of user 10 plays; user 11 stops, then user 12 stops again.
\<close>

theorem stop_twice_witness:
  "stop (ex_music (ex_state {||} [])) (ex_ctx 11) = (new_Music, [Call_stop, Call_disconnect])
   \<and> stop new_Music (ex_ctx 12) = (new_Music, [])"
proof -
  have srv: "message_server (ex_ctx 12) = message_server (ex_ctx 11)"
    by (simp add: ex_ctx_def)
  have reg: "get_voice_state (ex_music (ex_state {||} [])) (message_server (ex_ctx 11)) =
      (ex_state {||} [], ex_music (ex_state {||} []))"
    by (simp add: get_voice_state_registered ex_music_lookup)
  have removed: "(ex_music (ex_state {||} []))
      \<lparr>voice_states := (voice_states (ex_music (ex_state {||} [])))(message_server (ex_ctx 11) := None)\<rparr> = new_Music"
    by (simp add: ex_music_def ex_ctx_def new_Music_def)
  have v: "voice (ex_state {||} []) = Some ex_channel"
    by (simp add: ex_state_def)
  show ?thesis
    using stop_twice [OF srv, of "ex_music (ex_state {||} [])"]
    by (auto simp: reg removed v ex_state_playing)
qed

section \<open>Pause, resume and volume\<close>

lemma set_voice_state_same:
  "voice_states m sid = Some st \<Longrightarrow> set_voice_state m sid st = m"
  by (simp add: set_voice_state_def map_upd_triv)

lemma set_voice_state_twice:
  "set_voice_state (set_voice_state m sid st) sid st' = set_voice_state m sid st'"
  by (simp add: set_voice_state_def)

lemma get_voice_state_set:
  "get_voice_state (set_voice_state m sid st) sid = (st, set_voice_state m sid st)"
  by (simp add: get_voice_state_def set_voice_state_def)

lemma pause_playing:
  assumes "voice_states m (message_server ctx) = Some st" and "is_playing st"
  shows "pause m ctx = (set_voice_state m (message_server ctx) (on_player player_pause st), [Call_pause])"
  using assms by (simp add: pause_def get_voice_state_registered)

lemma resume_playing:
  assumes "voice_states m (message_server ctx) = Some st" and "is_playing st"
  shows "resume m ctx = (set_voice_state m (message_server ctx) (on_player player_resume st), [Call_resume])"
  using assms by (simp add: resume_def get_voice_state_registered)

lemma is_playing_on_player_pause: "is_playing (on_player player_pause st) = is_playing st"
  by (simp add: is_playing_def on_player_def player_pause_def is_done_def split: option.splits)

text \<open>
  C8, as the specification states it, fails: \<^verbatim>\<open>pause\<close> on a channel that is paused already
  forwards \<^verbatim>\<open>pause()\<close> to the player again, and \<^verbatim>\<open>resume\<close> on a channel that plays and is
  not paused forwards \<^verbatim>\<open>resume()\<close>.
\<close>

theorem pause_forwarded_when_paused:
  "pause (ex_music (ex_state {||} [])) (ex_ctx 11) =
     (ex_music (on_player player_pause (ex_state {||} [])), [Call_pause])
   \<and> pause (ex_music (on_player player_pause (ex_state {||} []))) (ex_ctx 11) =
     (ex_music (on_player player_pause (ex_state {||} [])), [Call_pause])
   \<and> resume (ex_music (ex_state {||} [])) (ex_ctx 11) =
     (ex_music (ex_state {||} []), [Call_resume])"
proof -
  have paused: "on_player player_pause (on_player player_pause (ex_state {||} [])) =
      on_player player_pause (ex_state {||} [])"
    by (simp add: on_player_def player_pause_def ex_state_def)
  have resumed: "on_player player_resume (ex_state {||} []) = ex_state {||} []"
    by (simp add: on_player_def player_resume_def ex_state_def ex_current_def ex_entry_def
        new_player_def player_start_def)
  have playing': "is_playing (on_player player_pause (ex_state {||} []))"
    by (simp add: is_playing_on_player_pause ex_state_playing)
  show ?thesis
    by (simp add: pause_playing [OF ex_music_lookup ex_state_playing]
        pause_playing [OF ex_music_lookup playing']
        resume_playing [OF ex_music_lookup ex_state_playing] ex_music_store paused resumed)
qed

text \<open>
  C8, amended. On a channel whose current entry plays and is not paused, \<^verbatim>\<open>pause\<close> then
  \<^verbatim>\<open>resume\<close> forward one call each and give back the very state from before: same
  current entry, queue and votes, not paused. On a registered channel where nothing plays,
  \<^verbatim>\<open>pause\<close> and \<^verbatim>\<open>resume\<close> change nothing and forward nothing. Whenever an entry plays,
  paused or not, \<^verbatim>\<open>pause\<close> forwards \<^verbatim>\<open>pause()\<close> and \<^verbatim>\<open>resume\<close> forwards \<^verbatim>\<open>resume()\<close>; the
  state stays as it is when the player is already paused, respectively not paused.
\<close>

theorem pause_resume_roundtrip:
  assumes "voice_states m (message_server ctx) = Some st"
  shows "(is_playing st \<and> current st = Some cur \<and> \<not> player_paused (player cur) \<longrightarrow>
        pause m ctx =
          (set_voice_state m (message_server ctx)
             (st\<lparr>current := Some (cur\<lparr>player := (player cur)\<lparr>player_paused := True\<rparr>\<rparr>)\<rparr>),
           [Call_pause])
        \<and> resume (fst (pause m ctx)) ctx = (m, [Call_resume]))
    \<and> (\<not> is_playing st \<longrightarrow> pause m ctx = (m, []) \<and> resume m ctx = (m, []))
    \<and> (is_playing st \<longrightarrow> snd (pause m ctx) = [Call_pause] \<and> snd (resume m ctx) = [Call_resume])
    \<and> (is_playing st \<and> current st = Some cur \<and> player_paused (player cur) \<longrightarrow> fst (pause m ctx) = m)
    \<and> (is_playing st \<and> current st = Some cur \<and> \<not> player_paused (player cur) \<longrightarrow> fst (resume m ctx) = m)"
proof -
  have a: "pause m ctx =
          (set_voice_state m (message_server ctx)
             (st\<lparr>current := Some (cur\<lparr>player := (player cur)\<lparr>player_paused := True\<rparr>\<rparr>)\<rparr>),
           [Call_pause])
        \<and> resume (fst (pause m ctx)) ctx = (m, [Call_resume])"
    if "is_playing st" "current st = Some cur" "\<not> player_paused (player cur)"
  proof -
    let ?st1 = "st\<lparr>current := Some (cur\<lparr>player := (player cur)\<lparr>player_paused := True\<rparr>\<rparr>)\<rparr>"
    have p: "pause m ctx = (set_voice_state m (message_server ctx) ?st1, [Call_pause])"
      using that by (simp add: pause_playing [OF assms] on_player_def player_pause_def)
    have "is_playing ?st1"
      using that(1,2) by (simp add: is_playing_def is_done_def split: option.splits)
    then have "resume (set_voice_state m (message_server ctx) ?st1) ctx =
        (set_voice_state m (message_server ctx) (on_player player_resume ?st1), [Call_resume])"
      by (simp add: resume_def get_voice_state_set set_voice_state_twice)
    moreover have "on_player player_resume ?st1 = st"
      using that by (simp add: on_player_def player_resume_def)
    ultimately show ?thesis
      by (simp add: p set_voice_state_same [OF assms])
  qed
  have b: "pause m ctx = (m, []) \<and> resume m ctx = (m, [])" if "\<not> is_playing st"
    using that by (simp add: pause_def resume_def get_voice_state_registered [OF assms])
  have c: "snd (pause m ctx) = [Call_pause] \<and> snd (resume m ctx) = [Call_resume]" if "is_playing st"
    by (simp add: pause_playing [OF assms that] resume_playing [OF assms that])
  have d: "fst (pause m ctx) = m"
    if "is_playing st" "current st = Some cur" "player_paused (player cur)"
  proof -
    have "on_player player_pause st = st"
      using that by (simp add: on_player_def player_pause_def)
    then show ?thesis
      by (simp add: pause_playing [OF assms that(1)] set_voice_state_same [OF assms])
  qed
  have e: "fst (resume m ctx) = m"
    if "is_playing st" "current st = Some cur" "\<not> player_paused (player cur)"
  proof -
    have "on_player player_resume st = st"
      using that by (simp add: on_player_def player_resume_def)
    then show ?thesis
      by (simp add: resume_playing [OF assms that(1)] set_voice_state_same [OF assms])
  qed
  show ?thesis
    using a b c d e by blast
qed

text \<open>
  The song of user 10 is paused and resumed while user 11 has voted and a song of user 12
  is queued; the state is the one from before.
\<close>

theorem pause_resume_roundtrip_witness:
  "resume (fst (pause (ex_music (ex_state {|11|} [ex_entry 12 ''b''])) (ex_ctx 12))) (ex_ctx 12) =
     (ex_music (ex_state {|11|} [ex_entry 12 ''b'']), [Call_resume])
   \<and> snd (pause (ex_music (ex_state {|11|} [ex_entry 12 ''b''])) (ex_ctx 12)) = [Call_pause]"
proof -
  have cur: "current (ex_state {|11|} [ex_entry 12 ''b'']) = Some ex_current"
    by (simp add: ex_state_def)
  have unpaused: "\<not> player_paused (player ex_current)"
    by (simp add: ex_current_def ex_entry_def new_player_def player_start_def)
  show ?thesis
    using pause_resume_roundtrip [where m = "ex_music (ex_state {|11|} [ex_entry 12 ''b''])"
          and ctx = "ex_ctx 12" and cur = ex_current, OF ex_music_lookup]
      ex_state_playing [of "{|11|}" "[ex_entry 12 ''b'']"] cur unpaused
    by blast
qed

lemma small_is_float:
  assumes "\<bar>q\<bar> \<le> 2 ^ 1023"
  shows "\<not> float_overflows q"
proof -
  have "(2::real) ^ 1023 < 2 ^ 1024 - 2 ^ 970"
    by simp
  then show ?thesis
    using assms by (simp add: float_overflows_def)
qed

lemma volume_playing:
  assumes "voice_states m (message_server ctx) = Some st"
    and "is_playing st"
    and "current st = Some cur"
  shows "volume m ctx val =
      (if float_overflows (real_of_int val / 100) then (m, [], Raised OverflowError)
       else
         (set_voice_state m (message_server ctx)
            (st\<lparr>current := Some (cur\<lparr>player := (player cur)\<lparr>player_volume := max (real_of_int val / 100) 0\<rparr>\<rparr>)\<rparr>),
          [Say (VOLUME_CHANGE (max (real_of_int val / 100) 0))], Returned ()))"
  using assms
  by (simp add: volume_def get_voice_state_registered Let_def player_set_volume_def)

text \<open>
  C9, as the specification states it, fails: while the song of user 10 plays, \<^verbatim>\<open>volume\<close>
  with 300 sets the volume to 3, outside of the range of the specification; with
  \<open>10 ^ 400\<close> the division raises and nothing is set or said; with \<open>- 50\<close> the player
  holds 0, not the hundredth.
\<close>

theorem volume_not_hundredth_in_range:
  "volume (ex_music (ex_state {||} [])) (ex_ctx 11) 300 =
     (ex_music ((ex_state {||} [])
        \<lparr>current := Some (ex_current\<lparr>player := (player ex_current)\<lparr>player_volume := 3\<rparr>\<rparr>)\<rparr>),
      [Say (VOLUME_CHANGE 3)], Returned ())
   \<and> \<not> settable_volume 3
   \<and> volume (ex_music (ex_state {||} [])) (ex_ctx 11) (10 ^ 400) =
     (ex_music (ex_state {||} []), [], Raised OverflowError)
   \<and> volume (ex_music (ex_state {||} [])) (ex_ctx 11) (- 50) =
     (ex_music ((ex_state {||} [])
        \<lparr>current := Some (ex_current\<lparr>player := (player ex_current)\<lparr>player_volume := 0\<rparr>\<rparr>)\<rparr>),
      [Say (VOLUME_CHANGE 0)], Returned ())"
proof -
  have cur: "current (ex_state {||} []) = Some ex_current"
    by (simp add: ex_state_def)
  note v = volume_playing [OF ex_music_lookup ex_state_playing cur]
  have small: "\<not> float_overflows 3"
    by (rule small_is_float) simp
  have small': "\<not> float_overflows (- (1 / 2))"
    by (rule small_is_float) simp
  have big: "float_overflows (10 ^ 398)"
    by (simp add: float_overflows_def)
  have q: "real_of_int (10 ^ 400) / 100 = 10 ^ 398"
    by simp
  have one: "volume (ex_music (ex_state {||} [])) (ex_ctx 11) 300 =
     (ex_music ((ex_state {||} [])
        \<lparr>current := Some (ex_current\<lparr>player := (player ex_current)\<lparr>player_volume := 3\<rparr>\<rparr>)\<rparr>),
      [Say (VOLUME_CHANGE 3)], Returned ())"
    using small by (simp add: v ex_music_store)
  have two: "volume (ex_music (ex_state {||} [])) (ex_ctx 11) (10 ^ 400) =
     (ex_music (ex_state {||} []), [], Raised OverflowError)"
    unfolding v q using big by simp
  have three: "volume (ex_music (ex_state {||} [])) (ex_ctx 11) (- 50) =
     (ex_music ((ex_state {||} [])
        \<lparr>current := Some (ex_current\<lparr>player := (player ex_current)\<lparr>player_volume := 0\<rparr>\<rparr>)\<rparr>),
      [Say (VOLUME_CHANGE 0)], Returned ())"
    using small' by (simp add: v ex_music_store)
  have "\<not> settable_volume 3"
    by (simp add: settable_volume_def)
  then show ?thesis
    using one two three by blast
qed

text \<open>
  C9, amended. While an entry plays, \<^verbatim>\<open>volume\<close> with an integer that is not negative and
  whose hundredth is a float sets the volume of the player to that hundredth and says so;
  for an integer from 0 to 200 the hundredth is a float and lies in the range from 0 to 2.
  On a registered channel where nothing plays, \<^verbatim>\<open>volume\<close> changes nothing and says
  nothing.
\<close>

theorem volume_sets_hundredth:
  assumes "voice_states m (message_server ctx) = Some st"
  shows "(is_playing st \<and> current st = Some cur \<and> 0 \<le> val
          \<and> \<not> float_overflows (real_of_int val / 100) \<longrightarrow>
        volume m ctx val =
          (set_voice_state m (message_server ctx)
             (st\<lparr>current := Some (cur\<lparr>player := (player cur)\<lparr>player_volume := real_of_int val / 100\<rparr>\<rparr>)\<rparr>),
           [Say (VOLUME_CHANGE (real_of_int val / 100))], Returned ()))
    \<and> (0 \<le> val \<and> val \<le> 200 \<longrightarrow>
        \<not> float_overflows (real_of_int val / 100) \<and> settable_volume (real_of_int val / 100))
    \<and> (\<not> is_playing st \<longrightarrow> volume m ctx val = (m, [], Returned ()))"
proof -
  have a: "volume m ctx val =
          (set_voice_state m (message_server ctx)
             (st\<lparr>current := Some (cur\<lparr>player := (player cur)\<lparr>player_volume := real_of_int val / 100\<rparr>\<rparr>)\<rparr>),
           [Say (VOLUME_CHANGE (real_of_int val / 100))], Returned ())"
    if "is_playing st" "current st = Some cur" "0 \<le> val" "\<not> float_overflows (real_of_int val / 100)"
  proof -
    have "max (real_of_int val / 100) 0 = real_of_int val / 100"
      using that(3) by simp
    then show ?thesis
      using that(4) by (simp add: volume_playing [OF assms that(1,2)])
  qed
  have b: "\<not> float_overflows (real_of_int val / 100) \<and> settable_volume (real_of_int val / 100)"
    if "0 \<le> val" "val \<le> 200"
  proof -
    have range: "0 \<le> real_of_int val / 100" "real_of_int val / 100 \<le> 2"
      using that by simp_all
    have "(2::real) \<le> 2 ^ 1023"
      by simp
    then have "\<bar>real_of_int val / 100\<bar> \<le> 2 ^ 1023"
      using range by linarith
    then show ?thesis
      using small_is_float range by (simp add: settable_volume_def)
  qed
  have c: "volume m ctx val = (m, [], Returned ())" if "\<not> is_playing st"
    using that by (simp add: volume_def get_voice_state_registered [OF assms])
  show ?thesis
    using a b c by blast
qed

text \<open>The volume of the song of user 10 is set to 150 percent.\<close>

theorem volume_sets_hundredth_witness:
  "volume (ex_music (ex_state {||} [])) (ex_ctx 11) 150 =
     (ex_music ((ex_state {||} [])
        \<lparr>current := Some (ex_current\<lparr>player := (player ex_current)\<lparr>player_volume := 3 / 2\<rparr>\<rparr>)\<rparr>),
      [Say (VOLUME_CHANGE (3 / 2))], Returned ())
   \<and> settable_volume (3 / 2)"
proof -
  have cur: "current (ex_state {||} []) = Some ex_current"
    by (simp add: ex_state_def)
  have q: "real_of_int 150 / 100 = 3 / 2"
    by simp
  note inst = volume_sets_hundredth [where m = "ex_music (ex_state {||} [])" and ctx = "ex_ctx 11"
      and cur = ex_current and val = 150, OF ex_music_lookup, unfolded q]
  have range: "\<not> float_overflows (3 / 2) \<and> settable_volume (3 / 2)"
    using inst by simp
  then have "volume (ex_music (ex_state {||} [])) (ex_ctx 11) 150 =
     (set_voice_state (ex_music (ex_state {||} [])) (message_server (ex_ctx 11))
        ((ex_state {||} [])
          \<lparr>current := Some (ex_current\<lparr>player := (player ex_current)\<lparr>player_volume := 3 / 2\<rparr>\<rparr>)\<rparr>),
      [Say (VOLUME_CHANGE (3 / 2))], Returned ())"
    using inst ex_state_playing [of "{||}" "[]"] cur by simp
  then show ?thesis
    using range by (simp add: ex_music_store)
qed

section \<open>Failures of \<^verbatim>\<open>join\<close>, \<^verbatim>\<open>summon\<close> and \<^verbatim>\<open>play\<close>\<close>

lemma get_voice_state_cases:
  "get_voice_state m sid =
     (case voice_states m sid of
        None \<Rightarrow> (new_VoiceState, set_voice_state m sid new_VoiceState)
      | Some st \<Rightarrow> (st, m))"
  by (simp add: get_voice_state_def set_voice_state_def split: option.splits)

lemma get_voice_state_again:
  "get_voice_state (snd (get_voice_state m sid)) sid = get_voice_state m sid"
  by (simp add: get_voice_state_def split: option.splits)

lemma set_voice_state_got:
  "set_voice_state (snd (get_voice_state m sid)) sid st = set_voice_state m sid st"
  by (simp add: get_voice_state_def set_voice_state_def split: option.splits)

text \<open>
  C5, as the specification states it, fails: on a server with no state, \<^verbatim>\<open>play\<close> of a user
  who is in no voice channel, and \<^verbatim>\<open>play\<close> whose connection fails, leave a state
  registered for the server.
\<close>

theorem failed_play_registers_state:
  "play new_Music ((ex_ctx 11)\<lparr>author_voice_channel := None\<rparr>) ''x'' None None =
     (ex_music new_VoiceState, [Say USER_NOT_IN_VOICE_CHANNEL], Returned ())
   \<and> play new_Music (ex_ctx 11) ''x'' (Some Other_exception) None =
     (ex_music new_VoiceState, [], Raised Other_exception)
   \<and> ex_music new_VoiceState \<noteq> new_Music"
proof -
  have reg: "get_voice_state new_Music 4 = (new_VoiceState, ex_music new_VoiceState)"
    by (simp add: get_voice_state_def new_Music_def ex_music_def)
  have reg': "get_voice_state (ex_music new_VoiceState) 4 = (new_VoiceState, ex_music new_VoiceState)"
    by (simp add: get_voice_state_def ex_music_def)
  have v: "voice new_VoiceState = None"
    by (simp add: new_VoiceState_def)
  have "voice_states (ex_music new_VoiceState) 4 \<noteq> voice_states new_Music 4"
    by (simp add: ex_music_def new_Music_def)
  then have "ex_music new_VoiceState \<noteq> new_Music"
    by auto
  then show ?thesis
    by (simp add: play_def summon_def ex_ctx_def reg reg' v)
qed

text \<open>
  C5, amended. A failed \<^verbatim>\<open>join\<close> (no voice channel, or the connection raises) leaves the
  registry as it was. \<^verbatim>\<open>summon\<close> of a user in no voice channel leaves it as it was, too.
  \<^verbatim>\<open>summon\<close> whose connection or move raises, and \<^verbatim>\<open>play\<close> that fails for the user being in
  no voice channel or the connection raising, leave what \<^verbatim>\<open>get_voice_state\<close> left: every
  state as before, and a fresh idle state registered for a server that had none. \<^verbatim>\<open>play\<close>
  whose player cannot be created leaves the registry as it was when a voice client was
  there, and otherwise only stores the voice client that its \<^verbatim>\<open>summon\<close> connected, in the
  state as before or in the fresh one. No failure touches the queue, the current entry, the
  votes or the task of a state, or the state of another server.
\<close>

theorem failures_keep_playback_state:
  "((case chan of None \<Rightarrow> author_voice_channel ctx | Some c \<Rightarrow> Some c) = None \<or> jr = Some e
      \<longrightarrow> fst (join m ctx chan jr) = m)
   \<and> (author_voice_channel ctx = None
      \<longrightarrow> summon m ctx jr = (m, [Say USER_NOT_IN_VOICE_CHANNEL], Returned False))
   \<and> (author_voice_channel ctx = Some c \<and> jr = Some e
      \<longrightarrow> summon m ctx jr = (snd (get_voice_state m (message_server ctx)), [], Raised e))
   \<and> (voice (fst (get_voice_state m (message_server ctx))) = None \<and> author_voice_channel ctx = None
      \<longrightarrow> play m ctx song jr res =
          (snd (get_voice_state m (message_server ctx)), [Say USER_NOT_IN_VOICE_CHANNEL], Returned ()))
   \<and> (voice (fst (get_voice_state m (message_server ctx))) = None \<and> author_voice_channel ctx = Some c
        \<and> jr = Some e
      \<longrightarrow> play m ctx song jr res = (snd (get_voice_state m (message_server ctx)), [], Raised e))
   \<and> (voice (fst (get_voice_state m (message_server ctx))) = None \<and> author_voice_channel ctx = Some c
        \<and> jr = None \<and> res = Some e
      \<longrightarrow> play m ctx song jr res =
          (set_voice_state m (message_server ctx)
             ((fst (get_voice_state m (message_server ctx)))\<lparr>voice := Some c\<rparr>),
           [Send_message (message_channel ctx) (Processing_error e)], Returned ()))
   \<and> (voice_states m (message_server ctx) = Some st \<and> voice st = Some v \<and> res = Some e
      \<longrightarrow> play m ctx song jr res =
          (m, [Send_message (message_channel ctx) (Processing_error e)], Returned ()))
   \<and> get_voice_state m (message_server ctx) =
       (case voice_states m (message_server ctx) of
          None \<Rightarrow> (new_VoiceState, set_voice_state m (message_server ctx) new_VoiceState)
        | Some st' \<Rightarrow> (st', m))"
proof -
  let ?sid = "message_server ctx"
  let ?st0 = "fst (get_voice_state m ?sid)"
  let ?m0 = "snd (get_voice_state m ?sid)"
  have got: "get_voice_state m ?sid = (?st0, ?m0)"
    by simp
  have again: "get_voice_state ?m0 ?sid = (?st0, ?m0)"
    by (simp add: get_voice_state_again)
  have a: "fst (join m ctx chan jr) = m"
    if "(case chan of None \<Rightarrow> author_voice_channel ctx | Some c \<Rightarrow> Some c) = None \<or> jr = Some e"
    using that
    by (auto simp: join_def create_voice_client_def Let_def split: option.splits)
  have b: "summon m ctx jr = (m, [Say USER_NOT_IN_VOICE_CHANNEL], Returned False)"
    if "author_voice_channel ctx = None"
    using that by (simp add: summon_def)
  have c: "summon m' ctx (Some e) = (snd (get_voice_state m' ?sid), [], Raised e)"
    if "author_voice_channel ctx = Some c" for m'
    using that by (simp add: summon_def split_beta)
  have d: "play m ctx song jr res = (?m0, [Say USER_NOT_IN_VOICE_CHANNEL], Returned ())"
    if "voice ?st0 = None" "author_voice_channel ctx = None"
    using that by (simp add: play_def split_beta summon_def)
  have e: "play m ctx song jr res = (?m0, [], Raised e)"
    if "voice ?st0 = None" "author_voice_channel ctx = Some c" "jr = Some e"
    using that by (simp add: play_def split_beta c [OF that(2)] get_voice_state_again)
  have f: "play m ctx song jr res =
          (set_voice_state m ?sid (?st0\<lparr>voice := Some c\<rparr>),
           [Send_message (message_channel ctx) (Processing_error e)], Returned ())"
    if "voice ?st0 = None" "author_voice_channel ctx = Some c" "jr = None" "res = Some e"
    using that
    by (simp add: play_def split_beta summon_def again play_song_def set_voice_state_got)
  have g: "play m ctx song jr res =
          (m, [Send_message (message_channel ctx) (Processing_error e)], Returned ())"
    if "voice_states m ?sid = Some st" "voice st = Some v" "res = Some e"
    using that by (simp add: play_def get_voice_state_registered play_song_def)
  show ?thesis
    using a b c [of m] d e f g get_voice_state_cases [of m ?sid] by blast
qed

text \<open>
  While the song of user 10 plays with a vote of user 11 and a song of user 12 queued, the
  player for a further song cannot be created, and a \<^verbatim>\<open>join\<close> is refused: all is as before.
  On a server with no state the connection of \<^verbatim>\<open>join\<close> fails: still no state.
\<close>

theorem failures_keep_playback_state_witness:
  "play (ex_music (ex_state {|11|} [ex_entry 12 ''b''])) (ex_ctx 13) ''c'' None (Some Other_exception) =
     (ex_music (ex_state {|11|} [ex_entry 12 ''b'']),
      [Send_message 2 (Processing_error Other_exception)], Returned ())
   \<and> fst (join (ex_music (ex_state {|11|} [ex_entry 12 ''b''])) (ex_ctx 13) None (Some ClientException)) =
     ex_music (ex_state {|11|} [ex_entry 12 ''b''])
   \<and> fst (join new_Music (ex_ctx 13) None (Some Other_exception)) = new_Music"
proof -
  have v: "voice (ex_state {|11|} [ex_entry 12 ''b'']) = Some ex_channel"
    by (simp add: ex_state_def)
  have ch: "message_channel (ex_ctx 13) = 2"
    by (simp add: ex_ctx_def)
  have one: "play (ex_music (ex_state {|11|} [ex_entry 12 ''b''])) (ex_ctx 13) ''c'' None (Some Other_exception) =
     (ex_music (ex_state {|11|} [ex_entry 12 ''b'']),
      [Send_message 2 (Processing_error Other_exception)], Returned ())"
    using failures_keep_playback_state [where m = "ex_music (ex_state {|11|} [ex_entry 12 ''b''])"
        and ctx = "ex_ctx 13" and st = "ex_state {|11|} [ex_entry 12 ''b'']" and v = ex_channel
        and res = "Some Other_exception" and e = Other_exception and song = "''c''" and jr = None]
      ex_music_lookup [of "ex_state {|11|} [ex_entry 12 ''b'']" 13] v
    by (simp add: ch)
  have two: "fst (join (ex_music (ex_state {|11|} [ex_entry 12 ''b''])) (ex_ctx 13) None (Some ClientException)) =
     ex_music (ex_state {|11|} [ex_entry 12 ''b''])"
    using failures_keep_playback_state [where m = "ex_music (ex_state {|11|} [ex_entry 12 ''b''])"
        and ctx = "ex_ctx 13" and chan = None and jr = "Some ClientException" and e = ClientException]
    by blast
  have three: "fst (join new_Music (ex_ctx 13) None (Some Other_exception)) = new_Music"
    using failures_keep_playback_state [where m = new_Music
        and ctx = "ex_ctx 13" and chan = None and jr = "Some Other_exception" and e = Other_exception]
    by blast
  show ?thesis
    using one two three by blast
qed

section \<open>The order of play\<close>

lemma started_by_simps:
  "started_by [] = []"
  "started_by (eff # effs) = started_entry eff @ started_by effs"
  "started_by (effs @ effs') = started_by effs @ started_by effs'"
  by (simp_all add: started_by_def)

lemma enqueued_by_simps:
  "enqueued_by [] = []"
  "enqueued_by (eff # effs) = enqueued_entry eff @ enqueued_by effs"
  "enqueued_by (effs @ effs') = enqueued_by effs @ enqueued_by effs'"
  by (simp_all add: enqueued_by_def)

lemma effects_on_simps:
  "effects_on sid [] = []"
  "effects_on sid (map (\<lambda>eff. (s, eff)) effs @ tr) = (if s = sid then effs else []) @ effects_on sid tr"
  by (simp_all add: effects_on_def filter_map comp_def)

lemma queue_of_set_voice_state:
  "queue_of (set_voice_state m s st) sid = (if s = sid then songs st else queue_of m sid)"
  by (simp add: queue_of_def set_voice_state_def)

lemma queue_of_get_voice_state:
  "queue_of (snd (get_voice_state m s)) sid = queue_of m sid"
  by (simp add: queue_of_def get_voice_state_def new_VoiceState_def split: option.splits)

lemma songs_get_voice_state:
  "songs (fst (get_voice_state m s)) = queue_of m s"
  by (simp add: queue_of_def get_voice_state_def new_VoiceState_def split: option.splits)

lemma songs_on_player: "songs (on_player f st) = songs st"
  by (simp add: on_player_def split: option.splits)

lemma VoiceState_skip_queue:
  "songs (fst (VoiceState_skip st)) = songs st
   \<and> started_by (snd (VoiceState_skip st)) = []
   \<and> enqueued_by (snd (VoiceState_skip st)) = []"
  by (simp add: VoiceState_skip_def Let_def songs_on_player started_by_simps enqueued_by_simps)

lemma join_queue:
  "queue_of (fst (join m ctx chan jr)) sid = queue_of m sid
   \<and> started_by (fst (snd (join m ctx chan jr))) = []
   \<and> enqueued_by (fst (snd (join m ctx chan jr))) = []"
  by (simp add: join_def create_voice_client_def split_beta Let_def queue_of_set_voice_state
      queue_of_get_voice_state songs_get_voice_state started_by_simps enqueued_by_simps
      split: option.splits outcome.splits)

lemma summon_queue:
  "queue_of (fst (summon m ctx jr)) sid = queue_of m sid
   \<and> started_by (fst (snd (summon m ctx jr))) = []
   \<and> enqueued_by (fst (snd (summon m ctx jr))) = []"
  by (simp add: summon_def split_beta Let_def queue_of_set_voice_state
      queue_of_get_voice_state songs_get_voice_state started_by_simps enqueued_by_simps
      split: option.splits)

lemma play_song_queue:
  assumes "voice_states m (message_server ctx) \<noteq> None"
  shows "queue_of (fst (play_song m ctx song res)) sid =
      queue_of m sid @
      (if message_server ctx = sid then enqueued_by (snd (play_song m ctx song res)) else [])
    \<and> started_by (snd (play_song m ctx song res)) = []"
proof -
  obtain st where st: "voice_states m (message_server ctx) = Some st"
    using assms by auto
  show ?thesis
  proof (cases res)
    case None
    then show ?thesis
      using st
      by (auto simp: play_song_def Let_def queue_of_def update_voice_state_def
          started_by_simps enqueued_by_simps)
  next
    case (Some e)
    then show ?thesis
      by (simp add: play_song_def started_by_simps enqueued_by_simps)
  qed
qed

lemma registered_get_voice_state: "voice_states (snd (get_voice_state m s)) s \<noteq> None"
  by (simp add: get_voice_state_def split: option.splits)

lemma registered_summon:
  "voice_states m (message_server ctx) \<noteq> None \<Longrightarrow> voice_states (fst (summon m ctx jr)) (message_server ctx) \<noteq> None"
  by (simp add: summon_def split_beta Let_def set_voice_state_def get_voice_state_def split: option.splits)

lemma play_queue:
  "queue_of (fst (play m ctx song jr res)) sid =
      queue_of m sid @
      (if message_server ctx = sid then enqueued_by (fst (snd (play m ctx song jr res))) else [])
    \<and> started_by (fst (snd (play m ctx song jr res))) = []"
proof -
  let ?m1 = "snd (get_voice_state m (message_server ctx))"
  let ?st = "fst (get_voice_state m (message_server ctx))"
  have r1: "voice_states ?m1 (message_server ctx) \<noteq> None"
    by (rule registered_get_voice_state)
  obtain m2 effs r where su: "summon ?m1 ctx jr = (m2, effs, r)"
    by (cases "summon ?m1 ctx jr") auto
  have r2: "voice_states m2 (message_server ctx) \<noteq> None"
    using registered_summon [OF r1, of jr] by (simp add: su)
  have q2: "queue_of m2 sid = queue_of m sid" and s2: "started_by effs = []" and e2: "enqueued_by effs = []"
    using summon_queue [of ?m1 ctx jr sid] by (simp_all add: su queue_of_get_voice_state)
  note ps1 = play_song_queue [OF r1, of song res sid, unfolded queue_of_get_voice_state]
  note ps2 = play_song_queue [OF r2, of song res sid, unfolded q2]
  show ?thesis
  proof (cases "voice ?st = None")
    case False
    then obtain v where "voice ?st = Some v"
      by auto
    then have p: "play m ctx song jr res =
        (fst (play_song ?m1 ctx song res), snd (play_song ?m1 ctx song res), Returned ())"
      by (simp add: play_def split_beta)
    show ?thesis
      unfolding p using ps1 by simp
  next
    case True
    show ?thesis
    proof (cases r)
      case (Raised e)
      then have p: "play m ctx song jr res = (m2, effs, Raised e)"
        using True by (simp add: play_def split_beta su)
      show ?thesis
        unfolding p by (simp add: q2 s2 e2)
    next
      case (Returned success)
      show ?thesis
      proof (cases success)
        case False
        then have p: "play m ctx song jr res = (m2, effs, Returned ())"
          using True Returned by (simp add: play_def split_beta su)
        show ?thesis
          unfolding p by (simp add: q2 s2 e2)
      next
        case success: True
        then have p: "play m ctx song jr res =
            (fst (play_song m2 ctx song res), effs @ snd (play_song m2 ctx song res), Returned ())"
          using True Returned by (simp add: play_def split_beta su)
        show ?thesis
          unfolding p using ps2 by (simp add: s2 e2 started_by_simps enqueued_by_simps)
      qed
    qed
  qed
qed

lemma volume_queue:
  "queue_of (fst (volume m ctx val)) sid = queue_of m sid
   \<and> started_by (fst (snd (volume m ctx val))) = []
   \<and> enqueued_by (fst (snd (volume m ctx val))) = []"
  by (simp add: volume_def split_beta Let_def queue_of_set_voice_state queue_of_get_voice_state
      songs_get_voice_state started_by_simps enqueued_by_simps split: option.splits)

lemma pause_queue:
  "queue_of (fst (pause m ctx)) sid = queue_of m sid
   \<and> started_by (snd (pause m ctx)) = []
   \<and> enqueued_by (snd (pause m ctx)) = []"
  by (simp add: pause_def split_beta queue_of_set_voice_state queue_of_get_voice_state
      songs_get_voice_state songs_on_player started_by_simps enqueued_by_simps)

lemma resume_queue:
  "queue_of (fst (resume m ctx)) sid = queue_of m sid
   \<and> started_by (snd (resume m ctx)) = []
   \<and> enqueued_by (snd (resume m ctx)) = []"
  by (simp add: resume_def split_beta queue_of_set_voice_state queue_of_get_voice_state
      songs_get_voice_state songs_on_player started_by_simps enqueued_by_simps)

lemma playing_queue:
  "queue_of (fst (playing m ctx)) sid = queue_of m sid
   \<and> started_by (snd (playing m ctx)) = []
   \<and> enqueued_by (snd (playing m ctx)) = []"
  by (simp add: playing_def split_beta queue_of_get_voice_state started_by_simps enqueued_by_simps
      split: option.splits)

lemma stop_queue:
  "(message_server ctx \<noteq> sid \<longrightarrow> queue_of (fst (stop m ctx)) sid = queue_of m sid)
   \<and> started_by (snd (stop m ctx)) = []
   \<and> enqueued_by (snd (stop m ctx)) = []"
  by (simp add: stop_def split_beta Let_def queue_of_def get_voice_state_def
      started_by_simps enqueued_by_simps split: option.splits)

lemma skip_queue:
  "queue_of (fst (skip m ctx)) sid = queue_of m sid
   \<and> started_by (snd (skip m ctx)) = []
   \<and> enqueued_by (snd (skip m ctx)) = []"
proof -
  have "songs (fst (VoiceState_skip st)) = songs st" for st
    using VoiceState_skip_queue by blast
  then have "songs (fst (VoiceState_skip (st\<lparr>skip_votes := vs\<rparr>))) = songs st" for st vs
    by simp
  then show ?thesis
    using VoiceState_skip_queue
    by (simp add: skip_def split_beta Let_def queue_of_set_voice_state queue_of_get_voice_state
      songs_get_voice_state started_by_simps enqueued_by_simps split: option.splits)
qed

lemma audio_player_task_queue:
  "started_by (snd (audio_player_task st)) @ songs (fst (audio_player_task st)) = songs st"
  "enqueued_by (snd (audio_player_task st)) = []"
  by (simp_all add: audio_player_task_def take_song_def Let_def started_by_simps enqueued_by_simps
      split: task.splits list.splits)

lemma on_state_queue:
  assumes "\<And>st. started_by (snd (f st)) @ songs (fst (f st)) = songs st"
    and "\<And>st. enqueued_by (snd (f st)) = []"
  shows "(if s = sid then started_by (snd (on_state s f m)) else []) @ queue_of (fst (on_state s f m)) sid =
      queue_of m sid @ (if s = sid then enqueued_by (snd (on_state s f m)) else [])"
proof (cases "voice_states m s")
  case None
  then have o: "on_state s f m = (m, [])"
    by (simp add: on_state_def)
  show ?thesis
    unfolding o by (simp add: started_by_simps enqueued_by_simps)
next
  case (Some st)
  then have o: "on_state s f m = (set_voice_state m s (fst (f st)), snd (f st))"
    by (simp add: on_state_def split_beta)
  have q: "queue_of m s = songs st"
    by (simp add: queue_of_def Some)
  show ?thesis
    unfolding o using assms(1) [of st] q
    by (auto simp: queue_of_set_voice_state assms(2))
qed

lemma step_queue:
  assumes "\<not> stops sid ev"
  shows "(if event_server ev = sid then started_by (snd (step ev m)) else []) @ queue_of (fst (step ev m)) sid =
      queue_of m sid @ (if event_server ev = sid then enqueued_by (snd (step ev m)) else [])"
proof (cases ev)
  case (Join ctx chan jr)
  then show ?thesis using join_queue [of m ctx chan jr sid] by (simp add: split_beta)
next
  case (Summon ctx jr)
  then show ?thesis using summon_queue [of m ctx jr sid] by (simp add: split_beta)
next
  case (Play ctx song jr res)
  then show ?thesis using play_queue [of m ctx song jr res sid] by (simp add: split_beta)
next
  case (Volume ctx val)
  then show ?thesis using volume_queue [of m ctx val sid] by (simp add: split_beta)
next
  case (Pause ctx)
  then show ?thesis using pause_queue [of m ctx sid] by simp
next
  case (Resume ctx)
  then show ?thesis using resume_queue [of m ctx sid] by simp
next
  case (Stop ctx)
  then show ?thesis using assms stop_queue [of ctx sid m] by simp
next
  case (Skip ctx)
  then show ?thesis using skip_queue [of m ctx sid] by simp
next
  case (Playing ctx)
  then show ?thesis using playing_queue [of m ctx sid] by simp
next
  case (Task s)
  show ?thesis
    unfolding Task step.simps event_server.simps
    by (rule on_state_queue) (simp_all add: audio_player_task_queue)
next
  case (Media_ends s)
  show ?thesis
    unfolding Media_ends step.simps event_server.simps
    by (rule on_state_queue)
      (simp_all add: media_ends_def songs_on_player started_by_simps enqueued_by_simps)
next
  case (After s)
  show ?thesis
    unfolding After step.simps event_server.simps
    by (rule on_state_queue)
      (simp_all add: after_callback_def toggle_next_def started_by_simps enqueued_by_simps
        split: option.splits)
qed

lemma run_queue:
  assumes "\<forall>ev \<in> set evs. \<not> stops sid ev"
  shows "started sid (snd (run evs m)) @ queue_of (fst (run evs m)) sid =
      queue_of m sid @ enqueued sid (snd (run evs m))"
  using assms
proof (induction evs arbitrary: m)
  case Nil
  then show ?case
    by (simp add: started_def enqueued_def effects_on_simps started_by_simps enqueued_by_simps)
next
  case (Cons ev evs)
  let ?m1 = "fst (step ev m)"
  let ?effs = "snd (step ev m)"
  let ?tr = "snd (run evs ?m1)"
  let ?m2 = "fst (run evs ?m1)"
  have ih: "started sid ?tr @ queue_of ?m2 sid = queue_of ?m1 sid @ enqueued sid ?tr"
    using Cons by simp
  have st: "(if event_server ev = sid then started_by ?effs else []) @ queue_of ?m1 sid =
      queue_of m sid @ (if event_server ev = sid then enqueued_by ?effs else [])"
    using Cons.prems by (intro step_queue) simp
  have r: "run (ev # evs) m = (?m2, map (\<lambda>eff. (event_server ev, eff)) ?effs @ ?tr)"
    by (simp add: split_beta)
  have "started sid (snd (run (ev # evs) m)) @ queue_of (fst (run (ev # evs) m)) sid =
      (if event_server ev = sid then started_by ?effs else []) @ started sid ?tr @ queue_of ?m2 sid"
    unfolding r by (simp add: started_def effects_on_simps started_by_simps)
  also have "\<dots> = (if event_server ev = sid then started_by ?effs else []) @ queue_of ?m1 sid @ enqueued sid ?tr"
    by (simp only: ih)
  also have "\<dots> = queue_of m sid @ (if event_server ev = sid then enqueued_by ?effs else []) @ enqueued sid ?tr"
    using st by (metis append.assoc)
  also have "\<dots> = queue_of m sid @ enqueued sid (snd (run (ev # evs) m))"
    unfolding r by (simp add: enqueued_def effects_on_simps enqueued_by_simps)
  finally show ?case .
qed

lemma audio_player_task_head:
  assumes "songs st = e # q"
    and "audio_player st = At_get \<or> audio_player st = At_wait \<and> play_next_song st"
  shows "current (fst (audio_player_task st)) = Some (e\<lparr>player := player_start (player e)\<rparr>)
    \<and> songs (fst (audio_player_task st)) = q
    \<and> snd (audio_player_task st) = [Send_message (channel e) (NOW_PLAYING e), Call_start]"
  using assms by (auto simp: audio_player_task_def take_song_def Let_def)

text \<open>
  C4. In every run with no \<^verbatim>\<open>stop\<close> for the server, whatever else happens and however the
  events interleave, the entries the loop has announced and started, followed by the queue
  that is left, are the queue from before followed by the entries \<^verbatim>\<open>play\<close> has put on it,
  in that order. When the task goes on with a queue that is not empty, it is the head of
  the queue that becomes \<^verbatim>\<open>current\<close> and is started, and the rest stays. A skip, forced or
  voted, leaves the queue as it is.
\<close>

theorem fifo_order:
  assumes "\<forall>ev \<in> set evs. \<not> stops sid ev"
  shows "started sid (snd (run evs m)) @ queue_of (fst (run evs m)) sid =
      queue_of m sid @ enqueued sid (snd (run evs m))
    \<and> (songs st = e # q \<and> (audio_player st = At_get \<or> audio_player st = At_wait \<and> play_next_song st)
        \<longrightarrow> current (fst (audio_player_task st)) = Some (e\<lparr>player := player_start (player e)\<rparr>)
          \<and> songs (fst (audio_player_task st)) = q
          \<and> snd (audio_player_task st) = [Send_message (channel e) (NOW_PLAYING e), Call_start])
    \<and> songs (fst (VoiceState_skip st)) = songs st
    \<and> queue_of (fst (skip m ctx)) sid = queue_of m sid"
  using run_queue [OF assms, of m] audio_player_task_head [of st e q]
    VoiceState_skip_queue [of st] skip_queue [of m ctx sid]
  by blast

text \<open>In the run \<open>ex_run\<close> the three songs start in the order in which they were asked for.\<close>

theorem fifo_order_witness:
  "started 4 (snd (run ex_run new_Music)) = [ex_entry 10 ''a'', ex_entry 12 ''b'', ex_entry 13 ''c'']
   \<and> enqueued 4 (snd (run ex_run new_Music)) = [ex_entry 10 ''a'', ex_entry 12 ''b'', ex_entry 13 ''c'']
   \<and> queue_of (fst (run ex_run new_Music)) 4 = []"
proof -
  have no_stop: "\<forall>ev \<in> set ex_run. \<not> stops 4 ev"
    by (simp add: ex_run_def)
  have r: "run ex_run new_Music =
      (ex_music ((ex_state {||} [])\<lparr>current := Some ((ex_entry 13 ''c'')\<lparr>player := player_start (player (ex_entry 13 ''c''))\<rparr>)\<rparr>),
       [(4, Say (ENQUEUE_SUCCESS (ex_entry 10 ''a''))),
        (4, Say (ENQUEUE_SUCCESS (ex_entry 12 ''b''))),
        (4, Send_message 2 (NOW_PLAYING (ex_entry 10 ''a''))), (4, Call_start),
        (4, Say (ENQUEUE_SUCCESS (ex_entry 13 ''c''))),
        (4, Say (SKIP_REQUESTER ex_current 10)), (4, Call_stop),
        (4, Send_message 2 (NOW_PLAYING (ex_entry 12 ''b''))), (4, Call_start),
        (4, Send_message 2 (NOW_PLAYING (ex_entry 13 ''c''))), (4, Call_start)])"
    by (simp add: ex_run_def new_Music_def ex_music_def ex_state_def ex_current_def ex_entry_def
        ex_ctx_def ex_channel_def play_def summon_def play_song_def get_voice_state_def
        set_voice_state_def update_voice_state_def new_VoiceState_def new_player_def
        on_state_def audio_player_task_def take_song_def skip_def VoiceState_skip_def
        is_playing_def is_done_def on_player_def player_stop_def player_start_def
        after_callback_def toggle_next_def media_ends_def Let_def player_set_volume_def)
  have e: "enqueued 4 (snd (run ex_run new_Music)) = [ex_entry 10 ''a'', ex_entry 12 ''b'', ex_entry 13 ''c'']"
    unfolding r by (simp add: enqueued_def effects_on_def enqueued_by_def)
  have q: "queue_of (fst (run ex_run new_Music)) 4 = []"
    unfolding r by (simp add: queue_of_def ex_music_def ex_state_def)
  have q0: "queue_of new_Music 4 = []"
    by (simp add: queue_of_def new_Music_def)
  have "started 4 (snd (run ex_run new_Music)) @ queue_of (fst (run ex_run new_Music)) 4 =
      queue_of new_Music 4 @ enqueued 4 (snd (run ex_run new_Music))"
    using fifo_order [OF no_stop, of new_Music] by blast
  then have "started 4 (snd (run ex_run new_Music)) = [ex_entry 10 ''a'', ex_entry 12 ''b'', ex_entry 13 ''c'']"
    unfolding e q q0 by simp
  then show ?thesis
    using e q by blast
qed

section \<open>\<^verbatim>\<open>is_playing\<close> on the states that occur\<close>

lemma idle_registryI:
  "(\<And>s st. voice_states m s = Some st \<Longrightarrow> idle_without_voice st) \<Longrightarrow> idle_registry m"
  by (simp add: idle_registry_def)

lemma idle_registryD:
  "idle_registry m \<Longrightarrow> voice_states m s = Some st \<Longrightarrow> idle_without_voice st"
  by (simp add: idle_registry_def)

lemma idle_new_VoiceState: "idle_without_voice new_VoiceState"
  by (simp add: idle_without_voice_def new_VoiceState_def)

lemma idle_set_voice_state:
  "idle_registry m \<Longrightarrow> idle_without_voice st \<Longrightarrow> idle_registry (set_voice_state m s st)"
  by (simp add: idle_registry_def set_voice_state_def)

lemma idle_get_voice_state:
  assumes "idle_registry m"
  shows "idle_registry (snd (get_voice_state m s))" and "idle_without_voice (fst (get_voice_state m s))"
  using assms idle_new_VoiceState
  by (auto simp: idle_registry_def get_voice_state_def split: option.splits)

lemma idle_voice: "idle_without_voice (st\<lparr>voice := Some c\<rparr>)"
  by (simp add: idle_without_voice_def)

lemma idle_on_player: "idle_without_voice (on_player f st) = idle_without_voice st"
  by (cases "voice st"; cases "current st") (simp_all add: idle_without_voice_def on_player_def)

lemma idle_skip_votes: "idle_without_voice (st\<lparr>skip_votes := vs\<rparr>) = idle_without_voice st"
  by (cases "voice st") (simp_all add: idle_without_voice_def)

lemma idle_VoiceState_skip: "idle_without_voice (fst (VoiceState_skip st)) = idle_without_voice st"
  by (simp add: VoiceState_skip_def Let_def idle_on_player idle_skip_votes)

lemma idle_audio_player_task:
  "idle_without_voice st \<Longrightarrow> idle_without_voice (fst (audio_player_task st))"
  by (auto simp: idle_without_voice_def audio_player_task_def take_song_def Let_def
      split: option.splits task.splits list.splits)

lemma idle_media_ends: "idle_without_voice (media_ends st) = idle_without_voice st"
  by (simp add: media_ends_def idle_on_player)

lemma idle_after_callback: "idle_without_voice (after_callback st) = idle_without_voice st"
  by (cases "voice st"; cases "current st")
    (simp_all add: after_callback_def toggle_next_def idle_without_voice_def)

lemma idle_on_state:
  assumes "idle_registry m" and "\<And>st. idle_without_voice st \<Longrightarrow> idle_without_voice (fst (f st))"
  shows "idle_registry (fst (on_state s f m))"
proof (cases "voice_states m s")
  case None
  then show ?thesis
    using assms(1) by (simp add: on_state_def)
next
  case (Some st)
  then show ?thesis
    using assms idle_registryD [OF assms(1) Some]
    by (simp add: on_state_def split_beta idle_set_voice_state)
qed

lemma idle_join:
  assumes "idle_registry m"
  shows "idle_registry (fst (join m ctx chan jr))"
  using assms idle_get_voice_state [OF assms]
  by (simp add: join_def create_voice_client_def Let_def split_beta idle_set_voice_state idle_voice
      split: option.splits outcome.splits)

lemma idle_summon:
  assumes "idle_registry m"
  shows "idle_registry (fst (summon m ctx jr))"
  using assms idle_get_voice_state [OF assms]
  by (simp add: summon_def Let_def split_beta idle_set_voice_state idle_voice
      split: option.splits)

lemma summon_connected:
  assumes "summon m ctx jr = (m2, effs, Returned True)"
  shows "\<exists>st c. voice_states m2 (message_server ctx) = Some st \<and> voice st = Some c"
  using assms
  by (auto simp: summon_def Let_def split_beta set_voice_state_def split: option.splits if_splits)

lemma idle_play_song:
  assumes "idle_registry m" and "voice_states m (message_server ctx) = Some st" and "voice st = Some c"
  shows "idle_registry (fst (play_song m ctx song res))"
proof (cases res)
  case None
  have "idle_without_voice (st\<lparr>songs := songs st @ [entry]\<rparr>)" for entry
    using assms(3) by (simp add: idle_without_voice_def)
  then show ?thesis
    using assms(1,2) None
    by (auto simp: play_song_def Let_def update_voice_state_def idle_registry_def)
next
  case (Some e)
  then show ?thesis
    using assms(1) by (simp add: play_song_def)
qed

lemma idle_play:
  assumes "idle_registry m"
  shows "idle_registry (fst (play m ctx song jr res))"
proof -
  let ?m1 = "snd (get_voice_state m (message_server ctx))"
  let ?st = "fst (get_voice_state m (message_server ctx))"
  have i1: "idle_registry ?m1"
    using idle_get_voice_state(1) [OF assms] .
  have reg: "voice_states ?m1 (message_server ctx) = Some ?st"
    by (simp add: get_voice_state_def split: option.splits)
  obtain m2 effs r where su: "summon ?m1 ctx jr = (m2, effs, r)"
    by (cases "summon ?m1 ctx jr") auto
  have i2: "idle_registry m2"
    using idle_summon [OF i1, of ctx jr] by (simp add: su)
  show ?thesis
  proof (cases "voice ?st")
    case (Some c)
    then have p: "play m ctx song jr res =
        (fst (play_song ?m1 ctx song res), snd (play_song ?m1 ctx song res), Returned ())"
      by (simp add: play_def split_beta)
    show ?thesis
      unfolding p using idle_play_song [OF i1 reg Some] by simp
  next
    case None
    show ?thesis
    proof (cases r)
      case (Raised e)
      then have "play m ctx song jr res = (m2, effs, Raised e)"
        using None by (simp add: play_def split_beta su)
      then show ?thesis
        using i2 by simp
    next
      case (Returned success)
      show ?thesis
      proof (cases success)
        case False
        then have "play m ctx song jr res = (m2, effs, Returned ())"
          using None Returned by (simp add: play_def split_beta su)
        then show ?thesis
          using i2 by simp
      next
        case True
        then have p: "play m ctx song jr res =
            (fst (play_song m2 ctx song res), effs @ snd (play_song m2 ctx song res), Returned ())"
          using None Returned by (simp add: play_def split_beta su)
        obtain st2 c where "voice_states m2 (message_server ctx) = Some st2" and "voice st2 = Some c"
          using summon_connected [of ?m1 ctx jr m2 effs] su Returned True by auto
        then show ?thesis
          unfolding p using idle_play_song [OF i2] by simp
      qed
    qed
  qed
qed

lemma idle_current: "idle_without_voice st \<Longrightarrow> idle_without_voice (st\<lparr>current := Some e\<rparr>) = (voice st \<noteq> None)"
  by (cases "voice st") (simp_all add: idle_without_voice_def)

lemma idle_volume:
  assumes "idle_registry m"
  shows "idle_registry (fst (volume m ctx val))"
proof -
  let ?st = "fst (get_voice_state m (message_server ctx))"
  have i: "idle_without_voice ?st"
    using idle_get_voice_state(2) [OF assms] .
  have "idle_without_voice (?st\<lparr>current := Some e\<rparr>)" if "is_playing ?st" for e
    using that idle_current [OF i]
    by (simp add: is_playing_def split: option.splits)
  then show ?thesis
    using idle_get_voice_state [OF assms, of "message_server ctx"]
    by (simp add: volume_def split_beta Let_def idle_set_voice_state split: option.splits)
qed

lemma idle_pause:
  assumes "idle_registry m"
  shows "idle_registry (fst (pause m ctx))"
  using idle_get_voice_state [OF assms]
  by (simp add: pause_def split_beta idle_set_voice_state idle_on_player)

lemma idle_resume:
  assumes "idle_registry m"
  shows "idle_registry (fst (resume m ctx))"
  using idle_get_voice_state [OF assms]
  by (simp add: resume_def split_beta idle_set_voice_state idle_on_player)

lemma idle_stop:
  assumes "idle_registry m"
  shows "idle_registry (fst (stop m ctx))"
  using idle_get_voice_state(1) [OF assms, of "message_server ctx"]
  by (simp add: stop_def split_beta Let_def idle_registry_def)

lemma idle_skip:
  assumes "idle_registry m"
  shows "idle_registry (fst (skip m ctx))"
  using idle_get_voice_state [OF assms, of "message_server ctx"]
  by (simp add: skip_def split_beta Let_def idle_set_voice_state idle_VoiceState_skip
      idle_skip_votes split: option.splits)

lemma idle_playing:
  assumes "idle_registry m"
  shows "idle_registry (fst (playing m ctx))"
  using idle_get_voice_state [OF assms, of "message_server ctx"]
  by (simp add: playing_def split_beta split: option.splits)

lemma idle_step:
  assumes "idle_registry m"
  shows "idle_registry (fst (step ev m))"
proof (cases ev)
  case (Join ctx chan jr)
  then show ?thesis using idle_join [OF assms, of ctx chan jr] by (simp add: split_beta)
next
  case (Summon ctx jr)
  then show ?thesis using idle_summon [OF assms, of ctx jr] by (simp add: split_beta)
next
  case (Play ctx song jr res)
  then show ?thesis using idle_play [OF assms, of ctx song jr res] by (simp add: split_beta)
next
  case (Volume ctx val)
  then show ?thesis using idle_volume [OF assms, of ctx val] by (simp add: split_beta)
next
  case (Pause ctx)
  then show ?thesis using idle_pause [OF assms] by simp
next
  case (Resume ctx)
  then show ?thesis using idle_resume [OF assms] by simp
next
  case (Stop ctx)
  then show ?thesis using idle_stop [OF assms] by simp
next
  case (Skip ctx)
  then show ?thesis using idle_skip [OF assms] by simp
next
  case (Playing ctx)
  then show ?thesis using idle_playing [OF assms] by simp
next
  case (Task s)
  then show ?thesis using idle_on_state [OF assms, of audio_player_task s] idle_audio_player_task by simp
next
  case (Media_ends s)
  then show ?thesis
    using idle_on_state [OF assms, of "\<lambda>st. (media_ends st, [])" s] by (simp add: idle_media_ends)
next
  case (After s)
  then show ?thesis
    using idle_on_state [OF assms, of "\<lambda>st. (after_callback st, [])" s] by (simp add: idle_after_callback)
qed

lemma reachable_idle: "reachable m \<Longrightarrow> idle_registry m"
proof (induction rule: reachable.induct)
  case reachable_new
  then show ?case by (simp add: idle_registry_def new_Music_def)
next
  case (reachable_step m ev)
  then show ?case by (simp add: idle_step)
qed

lemma reachable_run: "reachable m \<Longrightarrow> reachable (fst (run evs m))"
proof (induction evs arbitrary: m)
  case Nil
  then show ?case by simp
next
  case (Cons ev evs)
  have "reachable (fst (step ev m))"
    using Cons.prems by (rule reachable_step)
  then have "reachable (fst (run evs (fst (step ev m))))"
    by (rule Cons.IH)
  then show ?case
    by (simp add: split_beta)
qed

text \<open>
  C7. In every state that the cog reaches, and for the state that \<^verbatim>\<open>get_voice_state\<close> hands
  to a command there, \<^verbatim>\<open>is_playing()\<close> is true exactly when \<^verbatim>\<open>current\<close> is an entry whose
  player is not done: the further test of \<^verbatim>\<open>voice\<close> never decides, since a state with no
  voice client has no current entry. \<^verbatim>\<open>is_playing()\<close> assigns nothing; it is a function of
  the state.
\<close>

theorem is_playing_iff_current_not_done:
  assumes "reachable m"
  shows "is_playing (fst (get_voice_state m sid)) =
      (case current (fst (get_voice_state m sid)) of None \<Rightarrow> False | Some e \<Rightarrow> \<not> is_done (player e))
    \<and> (voice_states m sid = Some st \<longrightarrow>
        is_playing st = (case current st of None \<Rightarrow> False | Some e \<Rightarrow> \<not> is_done (player e)))"
proof -
  have idle: "idle_registry m"
    using assms by (rule reachable_idle)
  have eq: "is_playing st' = (case current st' of None \<Rightarrow> False | Some e \<Rightarrow> \<not> is_done (player e))"
    if "idle_without_voice st'" for st'
    using that by (simp add: is_playing_def idle_without_voice_def split: option.splits)
  have "idle_without_voice (fst (get_voice_state m sid))"
    using idle_get_voice_state(2) [OF idle] .
  moreover have "idle_without_voice st" if "voice_states m sid = Some st"
    using idle_registryD [OF idle that] .
  ultimately show ?thesis
    using eq by blast
qed

text \<open>
  The state after the run \<open>ex_run\<close>, where the song of user 13 plays, and the empty
  registry, where the state handed out is a fresh one.
\<close>

theorem is_playing_iff_current_not_done_witness:
  "reachable (fst (run ex_run new_Music))
   \<and> is_playing (fst (get_voice_state (fst (run ex_run new_Music)) 4))
   \<and> \<not> is_playing (fst (get_voice_state new_Music 4))"
proof -
  have r: "reachable (fst (run ex_run new_Music))"
    using reachable_new by (rule reachable_run)
  have st: "fst (get_voice_state (fst (run ex_run new_Music)) 4) =
      (ex_state {||} [])\<lparr>current := Some ((ex_entry 13 ''c'')\<lparr>player := player_start (player (ex_entry 13 ''c''))\<rparr>)\<rparr>"
    by (simp add: ex_run_def new_Music_def ex_state_def ex_current_def ex_entry_def
        ex_ctx_def ex_channel_def play_def summon_def play_song_def get_voice_state_def
        set_voice_state_def update_voice_state_def new_VoiceState_def new_player_def
        on_state_def audio_player_task_def take_song_def skip_def VoiceState_skip_def
        is_playing_def is_done_def on_player_def player_stop_def player_start_def
        after_callback_def toggle_next_def media_ends_def Let_def player_set_volume_def)
  have c: "current (fst (get_voice_state (fst (run ex_run new_Music)) 4)) =
      Some ((ex_entry 13 ''c'')\<lparr>player := player_start (player (ex_entry 13 ''c''))\<rparr>)"
    unfolding st by simp
  have d: "\<not> is_done (player ((ex_entry 13 ''c'')\<lparr>player := player_start (player (ex_entry 13 ''c''))\<rparr>))"
    by (simp add: is_done_def ex_entry_def player_start_def new_player_def)
  have c0: "current (fst (get_voice_state new_Music 4)) = None"
    by (simp add: get_voice_state_def new_Music_def new_VoiceState_def)
  have one: "is_playing (fst (get_voice_state (fst (run ex_run new_Music)) 4))"
    using is_playing_iff_current_not_done [OF r, of 4] d by (simp only: c option.case, blast)
  have two: "\<not> is_playing (fst (get_voice_state new_Music 4))"
    using is_playing_iff_current_not_done [OF reachable_new, of 4] by (simp only: c0 option.case, blast)
  show ?thesis
    using r one two by blast
qed

end
